theory Spec2Isabelle
  imports Complex_Main "HOL-Library.While_Combinator"
begin

section \<open>Capillary-pressure models of OpenPNM (Physics/models/capillary\_pressure.py)\<close>

text \<open>
  The module computes capillary entry pressures on numpy arrays of float64. The embedding
  below keeps the structure of the Python: arrays live in a heap and are passed by
  reference, the property dictionaries of the network, phase and physics objects map keys
  to array references, every exception of Python or numpy is a value of type \<open>error\<close>,
  and every function of the module is a state transformer over the heap.
\<close>

subsection \<open>Array elements\<close>

text \<open>
  An array element is a float64. The model keeps the special values of IEEE arithmetic
  (the two infinities and NaN) and computes the finite values in the reals: rounding,
  overflow of finite results and the sign of zero are not modelled. Division of a
  non-zero finite value by zero yields an infinity, as numpy does (with a warning, not an
  exception); the zero divisor counts as positive.
\<close>

datatype fval = Fin real | PInf | NInf | NaN

fun fneg :: "fval \<Rightarrow> fval" where
  "fneg (Fin x) = Fin (- x)"
| "fneg PInf = NInf"
| "fneg NInf = PInf"
| "fneg NaN = NaN"

fun fabs :: "fval \<Rightarrow> fval" where
  "fabs (Fin x) = Fin \<bar>x\<bar>"
| "fabs PInf = PInf"
| "fabs NInf = PInf"
| "fabs NaN = NaN"

fun fadd :: "fval \<Rightarrow> fval \<Rightarrow> fval" where
  "fadd (Fin x) (Fin y) = Fin (x + y)"
| "fadd NaN y = NaN"
| "fadd x NaN = NaN"
| "fadd PInf NInf = NaN"
| "fadd NInf PInf = NaN"
| "fadd PInf y = PInf"
| "fadd NInf y = NInf"
| "fadd (Fin x) y = y"

definition fsub :: "fval \<Rightarrow> fval \<Rightarrow> fval" where
  "fsub x y = fadd x (fneg y)"

fun fmul :: "fval \<Rightarrow> fval \<Rightarrow> fval" where
  "fmul (Fin x) (Fin y) = Fin (x * y)"
| "fmul NaN y = NaN"
| "fmul x NaN = NaN"
| "fmul PInf (Fin y) = (if 0 < y then PInf else if y < 0 then NInf else NaN)"
| "fmul NInf (Fin y) = (if 0 < y then NInf else if y < 0 then PInf else NaN)"
| "fmul (Fin x) PInf = (if 0 < x then PInf else if x < 0 then NInf else NaN)"
| "fmul (Fin x) NInf = (if 0 < x then NInf else if x < 0 then PInf else NaN)"
| "fmul PInf PInf = PInf"
| "fmul PInf NInf = NInf"
| "fmul NInf PInf = NInf"
| "fmul NInf NInf = PInf"

fun fdiv :: "fval \<Rightarrow> fval \<Rightarrow> fval" where
  "fdiv (Fin x) (Fin y) =
     (if y \<noteq> 0 then Fin (x / y)
      else if 0 < x then PInf else if x < 0 then NInf else NaN)"
| "fdiv NaN y = NaN"
| "fdiv x NaN = NaN"
| "fdiv (Fin x) y = Fin 0"
| "fdiv PInf (Fin y) = (if 0 \<le> y then PInf else NInf)"
| "fdiv NInf (Fin y) = (if 0 \<le> y then NInf else PInf)"
| "fdiv x y = NaN"

fun fcos :: "fval \<Rightarrow> fval" where
  "fcos (Fin x) = Fin (cos x)"
| "fcos x = NaN"

fun fsin :: "fval \<Rightarrow> fval" where
  "fsin (Fin x) = Fin (sin x)"
| "fsin x = NaN"

fun farcsin :: "fval \<Rightarrow> fval" where
  "farcsin (Fin x) = (if \<bar>x\<bar> \<le> 1 then Fin (arcsin x) else NaN)"
| "farcsin x = NaN"

fun fsqrt :: "fval \<Rightarrow> fval" where
  "fsqrt (Fin x) = (if 0 \<le> x then Fin (sqrt x) else NaN)"
| "fsqrt PInf = PInf"
| "fsqrt x = NaN"

fun fexp :: "fval \<Rightarrow> fval" where
  "fexp (Fin x) = Fin (exp x)"
| "fexp PInf = PInf"
| "fexp NInf = Fin 0"
| "fexp NaN = NaN"

text \<open>\<open>scipy.radians\<close>: degrees to radians.\<close>

definition fradians :: "fval \<Rightarrow> fval" where
  "fradians x = fmul x (Fin (pi / 180))"

text \<open>The comparisons \<open>==\<close> and \<open>>\<close> of floats: every comparison with NaN is false.\<close>

fun feq :: "fval \<Rightarrow> fval \<Rightarrow> bool" where
  "feq NaN y = False"
| "feq x NaN = False"
| "feq x y = (x = y)"

fun fgt :: "fval \<Rightarrow> fval \<Rightarrow> bool" where
  "fgt NaN y = False"
| "fgt x NaN = False"
| "fgt (Fin x) (Fin y) = (y < x)"
| "fgt PInf y = (y \<noteq> PInf)"
| "fgt x NInf = (x \<noteq> NInf)"
| "fgt x y = False"

text \<open>The binary maximum and minimum under \<open>numpy.max\<close> and \<open>numpy.min\<close>: NaN propagates.\<close>

fun fmax :: "fval \<Rightarrow> fval \<Rightarrow> fval" where
  "fmax NaN y = NaN"
| "fmax x NaN = NaN"
| "fmax (Fin x) (Fin y) = Fin (max x y)"
| "fmax PInf y = PInf"
| "fmax x PInf = PInf"
| "fmax NInf y = y"
| "fmax x NInf = x"

fun fmin :: "fval \<Rightarrow> fval \<Rightarrow> fval" where
  "fmin NaN y = NaN"
| "fmin x NaN = NaN"
| "fmin (Fin x) (Fin y) = Fin (min x y)"
| "fmin NInf y = NInf"
| "fmin x NInf = NInf"
| "fmin PInf y = y"
| "fmin x PInf = x"

subsection \<open>Errors and one-dimensional arrays\<close>

text \<open>
  The exceptions the module can raise: a missing dictionary key, an index out of range,
  numpy's \<open>ValueError\<close> (shapes that do not broadcast, a reduction of an empty array) and
  numpy's \<open>TypeError\<close> (an operation the element type does not support).
\<close>

datatype error = KeyError | IndexError | ValueError | TypeError

type_synonym ndarray = "fval list"

text \<open>
  An elementwise binary operation on two one-dimensional arrays, with numpy's
  broadcasting: equal lengths, or one operand of length one, otherwise \<open>ValueError\<close>.
\<close>

definition np_binop :: "(fval \<Rightarrow> fval \<Rightarrow> fval) \<Rightarrow> ndarray \<Rightarrow> ndarray \<Rightarrow> error + ndarray" where
  "np_binop f xs ys =
     (if length xs = length ys then Inr (map2 f xs ys)
      else if length xs = 1 then Inr (map (f (hd xs)) ys)
      else if length ys = 1 then Inr (map (\<lambda>x. f x (hd ys)) xs)
      else Inl ValueError)"

text \<open>Sequencing of operations that can raise: the first error ends the evaluation.\<close>

definition err_bind :: "error + 'a \<Rightarrow> ('a \<Rightarrow> error + 'b) \<Rightarrow> error + 'b" where
  "err_bind m f = (case m of Inl e \<Rightarrow> Inl e | Inr x \<Rightarrow> f x)"

text \<open>Indexing with an array of indices (\<open>a[idx]\<close>) copies the selected entries.\<close>

definition np_take :: "'a list \<Rightarrow> nat list \<Rightarrow> error + 'a list" where
  "np_take xs idx =
     (if \<forall>i \<in> set idx. i < length xs then Inr (map (\<lambda>i. xs ! i) idx) else Inl IndexError)"

text \<open>Indexing with a boolean mask (\<open>a[mask]\<close>) copies the entries the mask selects.\<close>

definition np_select :: "'a list \<Rightarrow> bool list \<Rightarrow> error + 'a list" where
  "np_select xs msk =
     (if length msk = length xs then Inr (map fst (filter snd (zip xs msk)))
      else Inl IndexError)"

text \<open>
  The reductions \<open>max\<close>, \<open>min\<close> and \<open>mean\<close>. The maximum and the minimum of an empty array
  raise \<open>ValueError\<close>; the mean of an empty array is NaN (numpy warns and returns it).
\<close>

definition np_max :: "ndarray \<Rightarrow> error + fval" where
  "np_max xs = (case xs of [] \<Rightarrow> Inl ValueError | x # r \<Rightarrow> Inr (foldl fmax x r))"

definition np_min :: "ndarray \<Rightarrow> error + fval" where
  "np_min xs = (case xs of [] \<Rightarrow> Inl ValueError | x # r \<Rightarrow> Inr (foldl fmin x r))"

definition np_mean :: "ndarray \<Rightarrow> error + fval" where
  "np_mean xs = Inr (fdiv (foldl fadd (Fin 0) xs) (Fin (real (length xs))))"

text \<open>
  The bitwise complement \<open>~a\<close>. The arrays of this module are float64 (a diameter divided
  by 2 is float64 whatever the diameter's type), and numpy defines no complement on
  floats: the operation raises \<open>TypeError\<close>.
\<close>

definition np_invert :: "ndarray \<Rightarrow> error + ndarray" where
  "np_invert xs = Inl TypeError"

subsection \<open>The heap of arrays and the monad of the module's functions\<close>

text \<open>
  Arrays are objects: a variable holds a reference, and an in-place update is seen
  through every reference to the same array. The heap is the list of all arrays ever
  allocated and a reference is a position in it. A computation takes the heap and returns
  a result or an error, and the heap it leaves behind.
\<close>

type_synonym addr = nat
type_synonym heap = "ndarray list"
type_synonym 'a py = "heap \<Rightarrow> (error + 'a) \<times> heap"

definition py_return :: "'a \<Rightarrow> 'a py" where
  "py_return x h = (Inr x, h)"

definition py_raise :: "error \<Rightarrow> 'a py" where
  "py_raise e h = (Inl e, h)"

definition py_bind :: "'a py \<Rightarrow> ('a \<Rightarrow> 'b py) \<Rightarrow> 'b py" where
  "py_bind m f h = (case m h of (Inl e, h') \<Rightarrow> (Inl e, h') | (Inr x, h') \<Rightarrow> f x h')"

definition py_lift :: "error + 'a \<Rightarrow> 'a py" where
  "py_lift r h = (r, h)"

definition alloc :: "ndarray \<Rightarrow> addr py" where
  "alloc a h = (Inr (length h), h @ [a])"

definition deref :: "addr \<Rightarrow> ndarray py" where
  "deref p h = (Inr (h ! p), h)"

definition assign :: "addr \<Rightarrow> ndarray \<Rightarrow> unit py" where
  "assign p a h = (Inr (), h[p := a])"

text \<open>
  A property dictionary maps a key to the reference of the stored array; subscripting
  (\<open>obj[key]\<close>) returns that reference, not a copy, and raises \<open>KeyError\<close> on a missing
  key.
\<close>

type_synonym pdict = "string \<rightharpoonup> addr"

definition getitem :: "pdict \<Rightarrow> string \<Rightarrow> addr py" where
  "getitem d k = (case d k of None \<Rightarrow> py_raise KeyError | Some p \<Rightarrow> py_return p)"

subsection \<open>Zero replacement\<close>

text \<open>
  \<open>_handle_zeros(array, mode='max', value=None)\<close>. The replacement value is chosen from
  the mode when the caller gives none; then the zero entries are overwritten in place and
  the same array is returned. In the modes \<open>min\<close> and \<open>mean\<close> the source writes
  \<open>array[~array == 0.0]\<close>: the complement binds tighter than the comparison, so it is
  applied to the array itself. With a mode that is none of the three the value stays
  \<open>None\<close>, which numpy stores into a float array as NaN.
\<close>

definition handle_zeros :: "addr \<Rightarrow> string \<Rightarrow> fval option \<Rightarrow> addr py" where
  "handle_zeros array mode val =
     py_bind
       (if val = None then
          (if mode = ''max'' then
             py_bind (deref array) (\<lambda>xs.
             py_bind (py_lift (np_max xs)) (\<lambda>m. py_return (Some m)))
           else if mode = ''min'' then
             py_bind (deref array) (\<lambda>xs.
             py_bind (py_lift (np_invert xs)) (\<lambda>nxs.
             py_bind (py_lift (np_select xs (map (\<lambda>x. feq x (Fin 0)) nxs))) (\<lambda>sel.
             py_bind (py_lift (np_min sel)) (\<lambda>m. py_return (Some m)))))
           else if mode = ''mean'' then
             py_bind (deref array) (\<lambda>xs.
             py_bind (py_lift (np_invert xs)) (\<lambda>nxs.
             py_bind (py_lift (np_select xs (map (\<lambda>x. feq x (Fin 0)) nxs))) (\<lambda>sel.
             py_bind (py_lift (np_mean sel)) (\<lambda>m. py_return (Some m)))))
           else py_return None)
        else py_return val)
       (\<lambda>val'.
          py_bind (deref array) (\<lambda>xs.
          py_bind (assign array
                     (map (\<lambda>x. if feq x (Fin 0) then (case val' of None \<Rightarrow> NaN | Some v \<Rightarrow> v)
                                else x) xs)) (\<lambda>_.
          py_return array)))"

subsection \<open>Network, phase and physics objects\<close>

text \<open>
  The objects are external to the module, which reads them through a few accessors. A
  network holds its property dictionary, the number of pores \<open>Np\<close>, the throat connections
  (\<open>throat.conns\<close>: the two end pores of each throat) and the pore coordinates
  (\<open>pore.coords\<close>, a two-dimensional array of \<open>Np\<close> rows of three coordinates, which the
  module only reads). A phase holds its property dictionary, the connections of the
  network it is attached to, and the index sets \<open>throats(label)\<close> and \<open>pores(label)\<close>; the
  label used by the module is the name of the requesting physics object, so these sets are
  the scope of that physics. A physics object holds its property dictionary and its name.
\<close>

record network =
  net_props :: pdict
  Np :: nat
  conns :: "(nat \<times> nat) list"
  coords :: "fval list list"

record phase =
  ph_props :: pdict
  ph_conns :: "(nat \<times> nat) list"
  throats :: "string \<Rightarrow> nat list"
  pores :: "string \<Rightarrow> nat list"

record physics =
  phys_props :: pdict
  name :: string

text \<open>
  Modelled from the spec: \<open>phase.interpolate_data\<close> is not among the source files. The
  spec (data model, property arrays) derives a throat value from the mean of the values of
  the throat's two end pores. The result is a new array.
\<close>

definition interpolate_data :: "phase \<Rightarrow> addr \<Rightarrow> addr py" where
  "interpolate_data ph dat =
     py_bind (deref dat) (\<lambda>pv.
     py_bind (py_lift (np_take pv (map fst (ph_conns ph)))) (\<lambda>a.
     py_bind (py_lift (np_take pv (map snd (ph_conns ph)))) (\<lambda>b.
     alloc (map2 (\<lambda>x y. fdiv (fadd x y) (Fin 2)) a b))))"

text \<open>
  Modelled from the spec: \<open>network.find_neighbor_throats\<close> is not among the source files.
  The spec (network accessor contract) returns the indices of the throats incident to the
  pore.
\<close>

definition find_neighbor_throats :: "network \<Rightarrow> nat \<Rightarrow> nat list" where
  "find_neighbor_throats net i =
     filter (\<lambda>t. fst (conns net ! t) = i \<or> snd (conns net ! t) = i) [0..<length (conns net)]"

text \<open>
  Modelled from the spec: \<open>network.find_clusters2\<close> is not among the source files. The spec
  (cluster tracker) labels the connected components of the subgraph of the throats whose
  two end pores both satisfy the occupancy predicate: a pore that fails the predicate gets
  the label \<open>-1\<close>, pores of one component share a label, and the label values are otherwise
  incidental. Here every occupied pore starts with its own index as label, a sweep over
  the throats gives the two ends of every occupied throat the smaller of their labels, and
  the sweeps are repeated until no label changes. An occupancy value is true when it is
  not zero. The lemmas on the cluster labels prove that the loop stops and that the
  result meets the contract of the spec (\<open>find_clusters2_contract\<close>).
\<close>

definition truthy :: "fval \<Rightarrow> bool" where
  "truthy x = (x \<noteq> Fin 0)"

definition relabel :: "bool list \<Rightarrow> int list \<Rightarrow> nat \<times> nat \<Rightarrow> int list" where
  "relabel occ lab c =
     (case c of (a, b) \<Rightarrow>
        if a < length lab \<and> b < length lab \<and> a < length occ \<and> b < length occ
           \<and> occ ! a \<and> occ ! b
        then (let m = min (lab ! a) (lab ! b) in lab[a := m, b := m])
        else lab)"

definition sweep :: "network \<Rightarrow> bool list \<Rightarrow> int list \<Rightarrow> int list" where
  "sweep net occ lab = foldl (relabel occ) lab (conns net)"

definition find_clusters2 :: "network \<Rightarrow> ndarray \<Rightarrow> int list" where
  "find_clusters2 net occupancy =
     (let occ = map truthy occupancy in
      while (\<lambda>lab. sweep net occ lab \<noteq> lab) (sweep net occ)
        (map (\<lambda>p. if p < length occ \<and> occ ! p then int p else - 1) [0..<Np net]))"

text \<open>
  The words of the spec's contract: a pore is occupied when the occupancy array has a
  true value for it; two pores are adjacent when a throat joins them and both are
  occupied pores of the network; the cluster of a pore is the set of pores connected to
  it through adjacent pores.
\<close>

definition occupied :: "ndarray \<Rightarrow> nat \<Rightarrow> bool" where
  "occupied occupancy p = (p < length occupancy \<and> truthy (occupancy ! p))"

definition adjacent :: "network \<Rightarrow> ndarray \<Rightarrow> (nat \<times> nat) set" where
  "adjacent net occupancy =
     {(a, b). ((a, b) \<in> set (conns net) \<or> (b, a) \<in> set (conns net))
              \<and> a < Np net \<and> b < Np net \<and> occupied occupancy a \<and> occupied occupancy b}"

definition cluster :: "network \<Rightarrow> ndarray \<Rightarrow> nat \<Rightarrow> nat set" where
  "cluster net occupancy p = {q. (p, q) \<in> (adjacent net occupancy)\<^sup>*}"

text \<open>
  The invariant of the labelling loop (the label of an occupied pore is the index of a
  pore of its cluster, not above its own index; every other label is \<open>-1\<close>) and the
  quantity that every sweep with a change decreases.
\<close>

definition labels_ok :: "network \<Rightarrow> ndarray \<Rightarrow> int list \<Rightarrow> bool" where
  "labels_ok net occupancy lab =
     (length lab = Np net \<and>
      (\<forall>p < Np net.
         if occupied occupancy p
         then 0 \<le> lab ! p \<and> lab ! p \<le> int p \<and> nat (lab ! p) \<in> cluster net occupancy p
         else lab ! p = - 1))"

definition potential :: "int list \<Rightarrow> nat" where
  "potential lab = sum_list (map (\<lambda>x. nat (x + 1)) lab)"

subsection \<open>Resolving the interfacial properties\<close>

text \<open>
  \<open>key.split('.')[0]\<close>: the part of a property key before the first dot, which names the
  entity (\<open>pore\<close> or \<open>throat\<close>) the property is attached to.
\<close>

definition key_entity :: "string \<Rightarrow> string" where
  "key_entity k = takeWhile (\<lambda>c. c \<noteq> CHR ''.'') k"

text \<open>
  \<open>_get_key_props\<close>: a pore property used with a throat diameter is interpolated to the
  throats; in every other case the stored array itself is returned.
\<close>

definition get_key_props ::
  "phase \<Rightarrow> string \<Rightarrow> string \<Rightarrow> string \<Rightarrow> (string \<times> addr \<times> addr) py" where
  "get_key_props ph diameter surface_tension contact_angle =
     (let entity = key_entity diameter in
      py_bind
        (if key_entity surface_tension = ''pore'' \<and> key_entity diameter = ''throat''
         then py_bind (getitem (ph_props ph) surface_tension) (\<lambda>sigma.
              interpolate_data ph sigma)
         else getitem (ph_props ph) surface_tension) (\<lambda>sigma.
      py_bind
        (if key_entity contact_angle = ''pore'' \<and> key_entity diameter = ''throat''
         then py_bind (getitem (ph_props ph) contact_angle) (\<lambda>theta.
              interpolate_data ph theta)
         else getitem (ph_props ph) contact_angle) (\<lambda>theta.
      py_return (entity, sigma, theta))))"

text \<open>
  Two steps that the three geometric models share. \<open>network[diameter]/2\<close> is a new array.
  \<open>value[absolute(value) == inf] = 0\<close> overwrites in place the entries of infinite
  magnitude.
\<close>

definition half_diameter :: "network \<Rightarrow> string \<Rightarrow> addr py" where
  "half_diameter net diameter =
     py_bind (getitem (net_props net) diameter) (\<lambda>d.
     py_bind (deref d) (\<lambda>dv.
     alloc (map (\<lambda>x. fdiv x (Fin 2)) dv)))"

definition zero_infinite :: "addr \<Rightarrow> unit py" where
  "zero_infinite val =
     py_bind (deref val) (\<lambda>v.
     assign val (map (\<lambda>x. if feq (fabs x) PInf then Fin 0 else x) v))"

text \<open>
  The slice to the scope of the requesting physics: \<open>value[phase.throats(physics.name)]\<close>
  for a throat diameter, \<open>value[phase.pores(physics.name)]\<close> otherwise. Indexing with an
  index array makes a new array.
\<close>

definition scope_indices :: "physics \<Rightarrow> phase \<Rightarrow> string \<Rightarrow> nat list" where
  "scope_indices phys ph entity =
     (if entity = ''throat'' then throats ph (name phys) else pores ph (name phys))"

definition slice_to_scope :: "physics \<Rightarrow> phase \<Rightarrow> string \<Rightarrow> ndarray \<Rightarrow> addr py" where
  "slice_to_scope phys ph entity v =
     py_bind (py_lift (np_take v (scope_indices phys ph entity))) (\<lambda>w. alloc w)"

subsection \<open>Washburn\<close>

text \<open>\<open>-2*sigma*cos(radians(theta))/r\<close>, evaluated left to right on whole arrays.\<close>

definition washburn_formula :: "ndarray \<Rightarrow> ndarray \<Rightarrow> ndarray \<Rightarrow> error + ndarray" where
  "washburn_formula sigma theta r =
     err_bind (np_binop fmul (map (fmul (Fin (- 2))) sigma)
                 (map (\<lambda>t. fcos (fradians t)) theta)) (\<lambda>num.
     np_binop fdiv num r)"

definition washburn ::
  "physics \<Rightarrow> phase \<Rightarrow> network \<Rightarrow> string \<Rightarrow> string \<Rightarrow> string \<Rightarrow> addr py" where
  "washburn phys ph net surface_tension contact_angle diameter =
     py_bind (get_key_props ph diameter surface_tension contact_angle)
       (\<lambda>(entity, sigma, theta).
     py_bind (half_diameter net diameter) (\<lambda>r.
     py_bind (handle_zeros r ''max'' None) (\<lambda>r.
     py_bind (deref sigma) (\<lambda>sv.
     py_bind (deref theta) (\<lambda>tv.
     py_bind (deref r) (\<lambda>rv.
     py_bind (py_lift (washburn_formula sv tv rv)) (\<lambda>v.
     py_bind (slice_to_scope phys ph entity v) (\<lambda>val.
     py_bind (zero_infinite val) (\<lambda>_.
     py_return val)))))))))"

subsection \<open>Purcell\<close>

text \<open>
  The toroid radius \<open>r_toroid\<close> is a float. The source computes, on whole arrays,
  \<open>alpha = theta - 180 + arcsin(sin(radians(theta)/(1+r/R)))\<close> and
  \<open>value = (-2*sigma/r) * (cos(radians(theta - alpha)) / (1 + R/r*(1 - cos(radians(alpha)))))\<close>.
  The result is sliced to the scope and returned as it is.
\<close>

definition purcell_alpha :: "ndarray \<Rightarrow> ndarray \<Rightarrow> fval \<Rightarrow> error + ndarray" where
  "purcell_alpha theta r R =
     err_bind (np_binop fdiv (map fradians theta) (map (\<lambda>x. fadd (Fin 1) (fdiv x R)) r))
       (\<lambda>q.
     np_binop fadd (map (\<lambda>t. fsub t (Fin 180)) theta) (map (\<lambda>x. farcsin (fsin x)) q))"

definition purcell_formula ::
  "ndarray \<Rightarrow> ndarray \<Rightarrow> ndarray \<Rightarrow> fval \<Rightarrow> error + ndarray" where
  "purcell_formula sigma theta r R =
     err_bind (purcell_alpha theta r R) (\<lambda>alpha.
     err_bind (np_binop fdiv (map (fmul (Fin (- 2))) sigma) r) (\<lambda>lhs.
     err_bind (np_binop fsub theta alpha) (\<lambda>d.
     err_bind (np_binop fmul (map (\<lambda>x. fdiv R x) r)
                 (map (\<lambda>a. fsub (Fin 1) (fcos (fradians a))) alpha)) (\<lambda>m.
     err_bind (np_binop fdiv (map (\<lambda>x. fcos (fradians x)) d) (map (fadd (Fin 1)) m)) (\<lambda>rhs.
     np_binop fmul lhs rhs)))))"

definition purcell ::
  "physics \<Rightarrow> phase \<Rightarrow> network \<Rightarrow> fval \<Rightarrow> string \<Rightarrow> string \<Rightarrow> string \<Rightarrow> addr py" where
  "purcell phys ph net r_toroid surface_tension contact_angle diameter =
     py_bind (get_key_props ph diameter surface_tension contact_angle)
       (\<lambda>(entity, sigma, theta).
     py_bind (half_diameter net diameter) (\<lambda>r.
     py_bind (handle_zeros r ''max'' None) (\<lambda>r.
     py_bind (deref sigma) (\<lambda>sv.
     py_bind (deref theta) (\<lambda>tv.
     py_bind (deref r) (\<lambda>rv.
     py_bind (py_lift (purcell_formula sv tv rv r_toroid)) (\<lambda>v.
     py_bind (slice_to_scope phys ph entity v) (\<lambda>val.
     py_return val))))))))"

subsection \<open>Cuboid\<close>

text \<open>
  \<open>theta *= 2*pi/360\<close> multiplies in place the array that \<open>_get_key_props\<close> returned. Then
  \<open>Theta = (theta + cos(theta)**2 - pi/4 - sin(theta)*cos(theta)) /
  (cos(theta) - sqrt(pi/4 - theta + sin(theta)*cos(theta)))\<close> and
  \<open>value = (sigma/rad)*Theta\<close>.
\<close>

definition cuboid_Theta :: "fval \<Rightarrow> fval" where
  "cuboid_Theta t =
     fdiv (fsub (fsub (fadd t (fmul (fcos t) (fcos t))) (Fin (pi / 4))) (fmul (fsin t) (fcos t)))
          (fsub (fcos t) (fsqrt (fadd (fsub (Fin (pi / 4)) t) (fmul (fsin t) (fcos t)))))"

definition cuboid_formula :: "ndarray \<Rightarrow> ndarray \<Rightarrow> ndarray \<Rightarrow> error + ndarray" where
  "cuboid_formula sigma theta rad =
     err_bind (np_binop fdiv sigma rad) (\<lambda>q.
     np_binop fmul q (map cuboid_Theta theta))"

definition cuboid ::
  "physics \<Rightarrow> phase \<Rightarrow> network \<Rightarrow> string \<Rightarrow> string \<Rightarrow> string \<Rightarrow> addr py" where
  "cuboid phys ph net surface_tension contact_angle diameter =
     py_bind (get_key_props ph diameter surface_tension contact_angle)
       (\<lambda>(entity, sigma, theta).
     py_bind (deref theta) (\<lambda>tv0.
     py_bind (assign theta (map (\<lambda>t. fmul t (Fin (2 * pi / 360))) tv0)) (\<lambda>_.
     py_bind (half_diameter net diameter) (\<lambda>rad.
     py_bind (handle_zeros rad ''max'' None) (\<lambda>rad.
     py_bind (deref sigma) (\<lambda>sv.
     py_bind (deref theta) (\<lambda>tv.
     py_bind (deref rad) (\<lambda>rv.
     py_bind (py_lift (cuboid_formula sv tv rv)) (\<lambda>v.
     py_bind (slice_to_scope phys ph entity v) (\<lambda>val.
     py_bind (zero_infinite val) (\<lambda>_.
     py_return val)))))))))))"

subsection \<open>Kelvin\<close>

text \<open>
  \<open>value = P0*np.exp((M*2*gamma)/(rho*R*T*r))\<close> with \<open>R = 8.314\<close>; the function returns
  \<open>value\<close>.
\<close>

definition kelvin_formula ::
  "ndarray \<Rightarrow> ndarray \<Rightarrow> ndarray \<Rightarrow> ndarray \<Rightarrow> ndarray \<Rightarrow> ndarray \<Rightarrow> error + ndarray" where
  "kelvin_formula T P0 M rho gamma r =
     err_bind (np_binop fmul (map (\<lambda>m. fmul m (Fin 2)) M) gamma) (\<lambda>num.
     err_bind (np_binop fmul (map (\<lambda>x. fmul x (Fin (8314 / 1000))) rho) T) (\<lambda>d1.
     err_bind (np_binop fmul d1 r) (\<lambda>den.
     err_bind (np_binop fdiv num den) (\<lambda>q.
     np_binop fmul P0 (map fexp q)))))"

definition kelvin ::
  "physics \<Rightarrow> phase \<Rightarrow> network \<Rightarrow> string \<Rightarrow> string \<Rightarrow> string \<Rightarrow> string \<Rightarrow> string \<Rightarrow> string
     \<Rightarrow> addr py" where
  "kelvin phys ph net diameter temperature vapor_pressure molecular_weight density
     surface_tension =
     py_bind (getitem (ph_props ph) temperature) (\<lambda>T.
     py_bind (getitem (ph_props ph) vapor_pressure) (\<lambda>P0.
     py_bind (getitem (ph_props ph) molecular_weight) (\<lambda>M.
     py_bind (getitem (ph_props ph) density) (\<lambda>rho.
     py_bind (getitem (ph_props ph) surface_tension) (\<lambda>gamma.
     py_bind (half_diameter net diameter) (\<lambda>r.
     py_bind (handle_zeros r ''max'' None) (\<lambda>r.
     py_bind (deref T) (\<lambda>Tv.
     py_bind (deref P0) (\<lambda>P0v.
     py_bind (deref M) (\<lambda>Mv.
     py_bind (deref rho) (\<lambda>rhov.
     py_bind (deref gamma) (\<lambda>gv.
     py_bind (deref r) (\<lambda>rv.
     py_bind (py_lift (kelvin_formula Tv P0v Mv rhov gv rv)) (\<lambda>v.
     alloc v))))))))))))))"

subsection \<open>Pore values from the throats\<close>

text \<open>
  \<open>from_throat\<close>: the dictionary \<open>functions\<close> (here \<open>functions_dict\<close>) maps the three operator names to numpy's
  reductions; another operator is replaced by \<open>mean\<close>. The loop runs over all \<open>Np\<close> pores
  of the network and writes the reduction of the physics' throat values at the pore's
  incident throats into \<open>value[i]\<close>.
\<close>

definition functions_dict :: "string \<rightharpoonup> (ndarray \<Rightarrow> error + fval)" where
  "functions_dict = [''min'' \<mapsto> np_min, ''max'' \<mapsto> np_max, ''mean'' \<mapsto> np_mean]"

fun from_throat_loop ::
  "physics \<Rightarrow> network \<Rightarrow> string \<Rightarrow> string \<Rightarrow> addr \<Rightarrow> nat list \<Rightarrow> unit py" where
  "from_throat_loop phys net capillary_pressure operator val [] = py_return ()"
| "from_throat_loop phys net capillary_pressure operator val (i # rest) =
     py_bind (py_lift (case functions_dict operator of None \<Rightarrow> Inl KeyError | Some f \<Rightarrow> Inr f))
       (\<lambda>f.
     py_bind (getitem (phys_props phys) capillary_pressure) (\<lambda>pc.
     py_bind (deref pc) (\<lambda>pcv.
     py_bind (py_lift (np_take pcv (find_neighbor_throats net i))) (\<lambda>sel.
     py_bind (py_lift (f sel)) (\<lambda>x.
     py_bind (deref val) (\<lambda>v.
     py_bind (assign val (v[i := x])) (\<lambda>_.
     from_throat_loop phys net capillary_pressure operator val rest)))))))"

definition from_throat ::
  "physics \<Rightarrow> phase \<Rightarrow> network \<Rightarrow> string \<Rightarrow> string \<Rightarrow> addr py" where
  "from_throat phys ph net capillary_pressure operator =
     py_bind (alloc (replicate (Np net) (Fin 0))) (\<lambda>val.
     py_bind (py_return (if operator \<notin> dom functions_dict then ''mean'' else operator))
       (\<lambda>operator.
     py_bind (from_throat_loop phys net capillary_pressure operator val [0..<Np net]) (\<lambda>_.
     py_return val)))"

subsection \<open>Static pressure\<close>

text \<open>
  Helpers for the two-dimensional arrays of \<open>static_pressure\<close>, held as lists of rows: an
  operation applied to every row, failing with the first error; the maximum along
  axis 0 (\<open>amax(a, axis=0)\<close>), which raises \<open>ValueError\<close> when there is no row; and the
  assignment \<open>a[idx] = vals\<close> through an index array, whose right side must have one value
  per index or a single value.
\<close>

fun np_each :: "('a \<Rightarrow> error + 'b) \<Rightarrow> 'a list \<Rightarrow> error + 'b list" where
  "np_each f [] = Inr []"
| "np_each f (x # xs) =
     err_bind (f x) (\<lambda>y. err_bind (np_each f xs) (\<lambda>ys. Inr (y # ys)))"

definition amax0 :: "fval list list \<Rightarrow> error + fval list" where
  "amax0 rows = (case rows of [] \<Rightarrow> Inl ValueError | r # rs \<Rightarrow> Inr (foldl (map2 fmax) r rs))"

definition np_put :: "ndarray \<Rightarrow> nat list \<Rightarrow> ndarray \<Rightarrow> error + ndarray" where
  "np_put xs idx vals =
     (if \<not> (\<forall>i \<in> set idx. i < length xs) then Inl IndexError
      else if length vals = length idx then Inr (foldl (\<lambda>a (i, v). a[i := v]) xs (zip idx vals))
      else if length vals = 1 then Inr (foldl (\<lambda>a i. a[i := hd vals]) xs idx)
      else Inl ValueError)"

text \<open>
  The body of the loop over the cluster labels, for the label \<open>c\<close>:
  \<open>Ps = where(clusters == c)[0]\<close> (the pores that carry the label, \<open>cluster_members\<close>), \<open>tops = amax(coords[Ps, :], axis=0)\<close>,
  \<open>h = tops - coords[Ps]\<close>, \<open>P_temp = g*h\<close>,
  \<open>P_temp = reshape(P_temp[:, where(g > 0)[0]], -1)\<close> and
  \<open>static_pressure[Ps] = P_temp*rho[Ps]\<close>.
\<close>

definition cluster_members :: "int list \<Rightarrow> int \<Rightarrow> nat list" where
  "cluster_members clusters c = filter (\<lambda>p. clusters ! p = c) [0..<length clusters]"

definition cluster_pressure ::
  "network \<Rightarrow> ndarray \<Rightarrow> int list \<Rightarrow> addr \<Rightarrow> addr \<Rightarrow> int \<Rightarrow> unit py" where
  "cluster_pressure net g clusters rho sp c =
     (let Ps = cluster_members clusters c in
      py_bind (py_lift (np_take (coords net) Ps)) (\<lambda>rows.
      py_bind (py_lift (amax0 rows)) (\<lambda>tops.
      py_bind (py_lift (np_each (\<lambda>row. np_binop fsub tops row) rows)) (\<lambda>h.
      py_bind (py_lift (np_each (\<lambda>row. np_binop fmul g row) h)) (\<lambda>P_temp.
      py_bind (py_lift (np_each (\<lambda>row. np_take row
                 (filter (\<lambda>k. fgt (g ! k) (Fin 0)) [0..<length g])) P_temp)) (\<lambda>P_sel.
      py_bind (deref rho) (\<lambda>rhov.
      py_bind (py_lift (np_take rhov Ps)) (\<lambda>rho_Ps.
      py_bind (py_lift (np_binop fmul (concat P_sel) rho_Ps)) (\<lambda>vals.
      py_bind (deref sp) (\<lambda>spv.
      py_bind (py_lift (np_put spv Ps vals)) (\<lambda>new.
      assign sp new)))))))))))"

fun static_pressure_loop ::
  "network \<Rightarrow> ndarray \<Rightarrow> int list \<Rightarrow> addr \<Rightarrow> addr \<Rightarrow> int list \<Rightarrow> unit py" where
  "static_pressure_loop net g clusters rho sp [] = py_return ()"
| "static_pressure_loop net g clusters rho sp (c # cs) =
     py_bind (cluster_pressure net g clusters rho sp c) (\<lambda>_.
     static_pressure_loop net g clusters rho sp cs)"

text \<open>
  \<open>static_pressure\<close>: the result array has \<open>Np\<close> zeros; the clusters are the labels of
  \<open>find_clusters2\<close> on the occupancy array, \<open>unique\<close> sorts them and drops duplicates, and
  the label \<open>-1\<close> is removed before the loop.
\<close>

definition static_pressure ::
  "network \<Rightarrow> physics \<Rightarrow> phase \<Rightarrow> string \<Rightarrow> string \<Rightarrow> ndarray \<Rightarrow> addr py" where
  "static_pressure net phys ph pore_density pore_occupancy g =
     py_bind (alloc (replicate (Np net) (Fin 0))) (\<lambda>sp.
     py_bind (getitem (ph_props ph) pore_density) (\<lambda>rho.
     py_bind (getitem (ph_props ph) pore_occupancy) (\<lambda>occ.
     py_bind (deref occ) (\<lambda>occv.
     (let clusters = find_clusters2 net occv;
          cluster_nums = filter (\<lambda>c. c \<noteq> - 1) (remdups (sort clusters))
      in py_bind (static_pressure_loop net g clusters rho sp cluster_nums) (\<lambda>_.
         py_return sp))))))"

subsection \<open>Reference formulas and example objects\<close>

text \<open>
  The radii that the models divide by, as a function of the stored diameters: the halves,
  with every zero replaced by the maximum of all the halves (\<open>_handle_zeros\<close> in its
  default mode). The lemmas below show that \<open>half_diameter\<close> followed by \<open>handle_zeros\<close>
  leaves exactly this array in the heap.
\<close>

definition radii :: "ndarray \<Rightarrow> ndarray" where
  "radii dv =
     (let hs = map (\<lambda>x. fdiv x (Fin 2)) dv
      in map (\<lambda>x. if feq x (Fin 0) then foldl fmax (hd hs) (tl hs) else x) hs)"

text \<open>
  The value of a single element under each formula and under the replacement of the
  infinite entries, for the statements below; the lemmas on the formulas show that the
  array operations compute these values position by position.
\<close>

definition washburn_elem :: "fval \<Rightarrow> fval \<Rightarrow> fval \<Rightarrow> fval" where
  "washburn_elem s t r = fdiv (fmul (fmul (Fin (- 2)) s) (fcos (fradians t))) r"

definition purcell_alpha_elem :: "fval \<Rightarrow> fval \<Rightarrow> fval \<Rightarrow> fval" where
  "purcell_alpha_elem t r R =
     fadd (fsub t (Fin 180)) (farcsin (fsin (fdiv (fradians t) (fadd (Fin 1) (fdiv r R)))))"

definition purcell_elem :: "fval \<Rightarrow> fval \<Rightarrow> fval \<Rightarrow> fval \<Rightarrow> fval" where
  "purcell_elem s t r R =
     (let a = purcell_alpha_elem t r R
      in fmul (fdiv (fmul (Fin (- 2)) s) r)
              (fdiv (fcos (fradians (fsub t a)))
                    (fadd (Fin 1) (fmul (fdiv R r) (fsub (Fin 1) (fcos (fradians a)))))))"

definition cuboid_elem :: "fval \<Rightarrow> fval \<Rightarrow> fval \<Rightarrow> fval" where
  "cuboid_elem s t r = fmul (fdiv s r) (cuboid_Theta t)"

definition kelvin_elem :: "fval \<Rightarrow> fval \<Rightarrow> fval \<Rightarrow> fval \<Rightarrow> fval \<Rightarrow> fval \<Rightarrow> fval" where
  "kelvin_elem T P0 M rho gamma r =
     fmul P0 (fexp (fdiv (fmul (fmul M (Fin 2)) gamma)
                         (fmul (fmul (fmul rho (Fin (8314 / 1000))) T) r)))"

definition zero_inf :: "fval \<Rightarrow> fval" where
  "zero_inf x = (if feq (fabs x) PInf then Fin 0 else x)"

text \<open>
  The Purcell pressure as the specification words it, on real numbers: the arcsine is
  applied to the sine of the contact angle in radians, divided by \<open>1 + r/R\<close>.
\<close>

definition purcell_claimed :: "real \<Rightarrow> real \<Rightarrow> real \<Rightarrow> real \<Rightarrow> real" where
  "purcell_claimed sigma theta r R =
     (let theta_rad = theta * pi / 180;
          alpha = theta - 180 + arcsin (sin theta_rad / (1 + r / R));
          alpha_rad = alpha * pi / 180
      in (- 2 * sigma / r) * (cos (theta_rad - alpha_rad) / (1 + R / r * (1 - cos alpha_rad))))"

text \<open>
  A smallest network for the examples: two pores, at heights 0 and 1, joined by one
  throat. The physics object named \<open>phys\<close> governs the throat and the first of the two
  pores, so its pore scope is a proper subset of the pores. The property dictionaries are
  parameters, since each example stores only the arrays it needs.
\<close>

definition line_net :: "pdict \<Rightarrow> network" where
  "line_net props =
     \<lparr>net_props = props, Np = 2, conns = [(0, 1)],
      coords = [[Fin 0, Fin 0, Fin 0], [Fin 0, Fin 0, Fin 1]]\<rparr>"

definition line_phase :: "pdict \<Rightarrow> phase" where
  "line_phase props =
     \<lparr>ph_props = props, ph_conns = [(0, 1)],
      throats = (\<lambda>l. if l = ''phys'' then [0] else []),
      pores = (\<lambda>l. if l = ''phys'' then [0] else [])\<rparr>"

definition phys_obj :: "pdict \<Rightarrow> physics" where
  "phys_obj props = \<lparr>phys_props = props, name = ''phys''\<rparr>"

text \<open>
  The phase of the examples for the geometric models, with the default keys of the
  source: surface tension and contact angle are stored on the pores, at the heap
  positions 1 and 2, and the network stores the throat diameters at position 0.
\<close>

definition pore_phase :: phase where
  "pore_phase = line_phase [''pore.surface_tension'' \<mapsto> 1, ''pore.contact_angle'' \<mapsto> 2]"

definition throat_net :: network where
  "throat_net = line_net [''throat.diameter'' \<mapsto> 0]"

text \<open>
  Three more example objects: a phase that stores the contact angle on the throats (at
  heap position 2), and for \<open>kelvin\<close> a network that stores pore diameters (at position 0)
  with a phase holding temperature, vapour pressure, molecular weight, density and
  surface tension of the pores (at positions 1 to 5).
\<close>

definition throat_angle_phase :: phase where
  "throat_angle_phase =
     line_phase [''pore.surface_tension'' \<mapsto> 1, ''throat.contact_angle'' \<mapsto> 2]"

definition pore_net :: network where
  "pore_net = line_net [''pore.diameter'' \<mapsto> 0]"

definition vapor_phase :: phase where
  "vapor_phase =
     line_phase [''pore.temperature'' \<mapsto> 1, ''pore.vapor_pressure'' \<mapsto> 2,
                 ''pore.molecular_weight'' \<mapsto> 3, ''pore.density'' \<mapsto> 4,
                 ''pore.surface_tension'' \<mapsto> 5]"

text \<open>
  For the statements on \<open>static_pressure\<close>: the highest coordinate \<open>k\<close> among the pores
  that carry the label \<open>c\<close>, and the pressure \<open>\<rho> g (top - coordinate)\<close> of a pore \<open>p\<close> along
  the axis \<open>k\<close>, multiplied in the order of the source (\<open>g*h\<close> first, then the density).
\<close>

definition cluster_top :: "network \<Rightarrow> int list \<Rightarrow> int \<Rightarrow> nat \<Rightarrow> fval" where
  "cluster_top net clusters c k =
     (case map (\<lambda>p. coords net ! p ! k) (cluster_members clusters c) of
        [] \<Rightarrow> NaN
      | z # zs \<Rightarrow> foldl fmax z zs)"

definition hydrostatic :: "network \<Rightarrow> ndarray \<Rightarrow> nat \<Rightarrow> int list \<Rightarrow> ndarray \<Rightarrow> nat \<Rightarrow> fval" where
  "hydrostatic net g k clusters rhov p =
     fmul (fmul (g ! k) (fsub (cluster_top net clusters (clusters ! p) k) (coords net ! p ! k)))
          (rhov ! p)"

text \<open>
  The phase of the static-pressure examples: the density of the pores at heap position
  0, their occupancy at position 1.
\<close>

definition occupied_phase :: phase where
  "occupied_phase = line_phase [''pore.density'' \<mapsto> 0, ''pore.occupancy'' \<mapsto> 1]"

section \<open>Basic lemmas\<close>

subsection \<open>The monad\<close>

lemma py_bind_return [simp]: "py_bind (py_return x) f h = f x h"
  by (simp add: py_bind_def py_return_def)

lemma py_bind_raise [simp]: "py_bind (py_raise e) f h = (Inl e, h)"
  by (simp add: py_bind_def py_raise_def)

lemma py_bind_lift_Inr [simp]: "py_bind (py_lift (Inr x)) f h = f x h"
  by (simp add: py_bind_def py_lift_def)

lemma py_bind_lift_Inl [simp]: "py_bind (py_lift (Inl e)) f h = (Inl e, h)"
  by (simp add: py_bind_def py_lift_def)

lemma py_bind_alloc [simp]: "py_bind (alloc a) f h = f (length h) (h @ [a])"
  by (simp add: py_bind_def alloc_def)

lemma py_bind_deref [simp]: "py_bind (deref p) f h = f (h ! p) h"
  by (simp add: py_bind_def deref_def)

lemma py_bind_assign [simp]: "py_bind (assign p a) f h = f () (h[p := a])"
  by (simp add: py_bind_def assign_def)

lemma py_bind_assoc [simp]:
  "py_bind (py_bind m f) g h = py_bind m (\<lambda>x. py_bind (f x) g) h"
  by (simp add: py_bind_def split: prod.splits sum.splits)

declare py_return_def [simp] py_raise_def [simp] py_lift_def [simp] alloc_def [simp]
  deref_def [simp] assign_def [simp]

lemma py_bind_if [simp]:
  "py_bind (if c then m1 else m2) f h = (if c then py_bind m1 f h else py_bind m2 f h)"
  by simp

lemma py_bind_Inr: "m h = (Inr x, h1) \<Longrightarrow> py_bind m f h = f x h1"
  by (simp add: py_bind_def)

lemma py_bind_Inl: "m h = (Inl e, h1) \<Longrightarrow> py_bind m f h = (Inl e, h1)"
  by (simp add: py_bind_def)

lemma py_bind_InrE:
  assumes "py_bind m f h = (Inr y, h2)"
  obtains x h1 where "m h = (Inr x, h1)" and "f x h1 = (Inr y, h2)"
  using assms by (auto simp: py_bind_def split: prod.splits sum.splits)

lemma getitem_Some [simp]: "d k = Some p \<Longrightarrow> getitem d k = py_return p"
  by (simp add: getitem_def)

lemma getitem_None [simp]: "d k = None \<Longrightarrow> getitem d k = py_raise KeyError"
  by (simp add: getitem_def)

lemma err_bind_Inr [simp]: "err_bind (Inr x) f = f x"
  by (simp add: err_bind_def)

lemma err_bind_Inl [simp]: "err_bind (Inl e) f = Inl e"
  by (simp add: err_bind_def)

subsection \<open>Arrays\<close>

lemma np_binop_same_length:
  "length xs = length ys \<Longrightarrow> np_binop f xs ys = Inr (map2 f xs ys)"
  by (simp add: np_binop_def)

lemma np_take_in_range:
  "\<forall>i \<in> set idx. i < length xs \<Longrightarrow> np_take xs idx = Inr (map (\<lambda>i. xs ! i) idx)"
  by (simp add: np_take_def)

lemma np_take_InrD:
  "np_take xs idx = Inr ys \<Longrightarrow> ys = map (\<lambda>i. xs ! i) idx \<and> (\<forall>i \<in> set idx. i < length xs)"
  by (auto simp: np_take_def split: if_splits)

subsection \<open>Radii\<close>

lemma half_diameter_Some:
  "net_props net diameter = Some d \<Longrightarrow>
   half_diameter net diameter h = (Inr (length h), h @ [map (\<lambda>x. fdiv x (Fin 2)) (h ! d)])"
  by (simp add: half_diameter_def)

lemma handle_zeros_max:
  assumes "a < length h" and "h ! a \<noteq> []"
  shows "handle_zeros a ''max'' None h =
         (Inr a, h[a := map (\<lambda>x. if feq x (Fin 0) then foldl fmax (hd (h ! a)) (tl (h ! a)) else x)
                          (h ! a)])"
proof -
  obtain x r where xr: "h ! a = x # r"
    using assms(2) by (cases "h ! a") auto
  show ?thesis
    by (simp add: handle_zeros_def np_max_def xr cong: if_cong)
qed

lemma handle_zeros_max_empty:
  "h ! a = [] \<Longrightarrow> handle_zeros a ''max'' None h = (Inl ValueError, h)"
  by (simp add: handle_zeros_def np_max_def)

lemma radius_steps:
  assumes "net_props net diameter = Some d" and "h ! d \<noteq> []" and "d < length h"
  shows "py_bind (half_diameter net diameter) (\<lambda>r. py_bind (handle_zeros r ''max'' None) f) h =
         f (length h) (h @ [radii (h ! d)])"
proof -
  let ?hs = "map (\<lambda>x. fdiv x (Fin 2)) (h ! d)"
  have ne: "?hs \<noteq> []" using assms(2) by simp
  have "handle_zeros (length h) ''max'' None (h @ [?hs]) = (Inr (length h), h @ [radii (h ! d)])"
    using handle_zeros_max [of "length h" "h @ [?hs]"] ne
    by (simp add: radii_def Let_def)
  then show ?thesis
    by (simp add: py_bind_Inr [OF half_diameter_Some [OF assms(1)]] py_bind_Inr)
qed

lemma length_radii [simp]: "length (radii dv) = length dv"
  by (simp add: radii_def Let_def)

subsection \<open>The formulas, element by element\<close>

lemma map2_nth_eq:
  "length xs = n \<Longrightarrow> length ys = n \<Longrightarrow> map2 f xs ys = map (\<lambda>i. f (xs ! i) (ys ! i)) [0..<n]"
  by (auto intro!: nth_equalityI)

lemma map_nth_eq: "length xs = n \<Longrightarrow> map f xs = map (\<lambda>i. f (xs ! i)) [0..<n]"
  by (auto intro!: nth_equalityI)

lemma np_binop_index:
  "length xs = n \<Longrightarrow> length ys = n \<Longrightarrow>
   np_binop f xs ys = Inr (map (\<lambda>i. f (xs ! i) (ys ! i)) [0..<n])"
  by (simp add: np_binop_def map2_nth_eq)

lemma np_binop_index_maps:
  "np_binop f (map (\<lambda>i. a i) [0..<n]) (map (\<lambda>i. b i) [0..<n]) =
   Inr (map (\<lambda>i. f (a i) (b i)) [0..<n])"
  by (simp add: np_binop_def) (auto intro!: nth_equalityI)

lemma np_binop_index_l:
  "length ys = n \<Longrightarrow>
   np_binop f (map (\<lambda>i. a i) [0..<n]) ys = Inr (map (\<lambda>i. f (a i) (ys ! i)) [0..<n])"
  by (simp add: np_binop_def) (auto intro!: nth_equalityI)

lemma np_binop_index_r:
  "length xs = n \<Longrightarrow>
   np_binop f xs (map (\<lambda>i. b i) [0..<n]) = Inr (map (\<lambda>i. f (xs ! i) (b i)) [0..<n])"
  by (simp add: np_binop_def) (auto intro!: nth_equalityI)

lemmas np_binop_elem = np_binop_index np_binop_index_maps np_binop_index_l np_binop_index_r

lemma washburn_formula_elem:
  assumes "length sigma = n" and "length theta = n" and "length r = n"
  shows "washburn_formula sigma theta r =
         Inr (map (\<lambda>i. washburn_elem (sigma ! i) (theta ! i) (r ! i)) [0..<n])"
  unfolding washburn_formula_def washburn_elem_def
  by (simp add: map_nth_eq [OF assms(1)] map_nth_eq [OF assms(2)] np_binop_elem assms o_def)

lemma purcell_alpha_elem_array:
  assumes "length theta = n" and "length r = n"
  shows "purcell_alpha theta r R =
         Inr (map (\<lambda>i. purcell_alpha_elem (theta ! i) (r ! i) R) [0..<n])"
  unfolding purcell_alpha_def purcell_alpha_elem_def
  by (simp add: map_nth_eq [OF assms(1)] map_nth_eq [OF assms(2)] np_binop_elem assms o_def)

lemma purcell_formula_elem:
  assumes "length sigma = n" and "length theta = n" and "length r = n"
  shows "purcell_formula sigma theta r R =
         Inr (map (\<lambda>i. purcell_elem (sigma ! i) (theta ! i) (r ! i) R) [0..<n])"
  unfolding purcell_formula_def purcell_elem_def Let_def
  by (simp add: purcell_alpha_elem_array [OF assms(2,3)] map_nth_eq [OF assms(1)]
      map_nth_eq [OF assms(3)] np_binop_elem assms o_def)

lemma cuboid_formula_elem:
  assumes "length sigma = n" and "length theta = n" and "length r = n"
  shows "cuboid_formula sigma theta r =
         Inr (map (\<lambda>i. cuboid_elem (sigma ! i) (theta ! i) (r ! i)) [0..<n])"
  unfolding cuboid_formula_def cuboid_elem_def
  by (simp add: map_nth_eq [OF assms(2)] np_binop_elem assms o_def)

lemma kelvin_formula_elem:
  assumes "length T = n" and "length P0 = n" and "length M = n" and "length rho = n"
    and "length gamma = n" and "length r = n"
  shows "kelvin_formula T P0 M rho gamma r =
         Inr (map (\<lambda>i. kelvin_elem (T ! i) (P0 ! i) (M ! i) (rho ! i) (gamma ! i) (r ! i)) [0..<n])"
  unfolding kelvin_formula_def kelvin_elem_def
  by (simp add: map_nth_eq [OF assms(3)] map_nth_eq [OF assms(4)] np_binop_elem assms o_def)

subsection \<open>What the geometric models leave in the heap\<close>

lemma slice_to_scope_in_range:
  "\<forall>i \<in> set (scope_indices phys ph entity). i < length v \<Longrightarrow>
   slice_to_scope phys ph entity v h =
   (Inr (length h), h @ [map (\<lambda>i. v ! i) (scope_indices phys ph entity)])"
  by (simp add: slice_to_scope_def np_take_in_range)

lemma zero_infinite_last:
  "zero_infinite (length h) (h @ [w]) = (Inr (), h @ [map zero_inf w])"
  by (simp add: zero_infinite_def zero_inf_def)

lemma washburn_run:
  assumes gk: "get_key_props ph diameter surface_tension contact_angle h =
               (Inr (entity, sa, ta), h1)"
    and d: "net_props net diameter = Some d" "d < length h1" "h1 ! d \<noteq> []"
    and a: "sa < length h1" "ta < length h1"
    and len: "length (h1 ! sa) = length (h1 ! d)" "length (h1 ! ta) = length (h1 ! d)"
    and idx: "\<forall>i \<in> set (scope_indices phys ph entity). i < length (h1 ! d)"
  shows "washburn phys ph net surface_tension contact_angle diameter h =
         (Inr (Suc (length h1)),
          h1 @ [radii (h1 ! d),
                map (\<lambda>i. zero_inf (washburn_elem (h1 ! sa ! i) (h1 ! ta ! i) (radii (h1 ! d) ! i)))
                    (scope_indices phys ph entity)])"
proof -
  let ?n = "length (h1 ! d)"
  let ?v = "map (\<lambda>i. washburn_elem (h1 ! sa ! i) (h1 ! ta ! i) (radii (h1 ! d) ! i)) [0..<?n]"
  have f: "washburn_formula (h1 ! sa) (h1 ! ta) (radii (h1 ! d)) = Inr ?v"
    by (rule washburn_formula_elem) (simp_all add: len)
  have s: "slice_to_scope phys ph entity ?v (h1 @ [radii (h1 ! d)]) =
           (Inr (Suc (length h1)),
            h1 @ [radii (h1 ! d), map (\<lambda>i. ?v ! i) (scope_indices phys ph entity)])"
    using slice_to_scope_in_range [of phys ph entity ?v "h1 @ [radii (h1 ! d)]"] idx by simp
  have m: "map (\<lambda>i. ?v ! i) (scope_indices phys ph entity) =
           map (\<lambda>i. washburn_elem (h1 ! sa ! i) (h1 ! ta ! i) (radii (h1 ! d) ! i))
               (scope_indices phys ph entity)"
    using idx by simp
  have z: "zero_infinite (Suc (length h1)) (h1 @ [radii (h1 ! d), w]) =
           (Inr (), h1 @ [radii (h1 ! d), map zero_inf w])" for w
    using zero_infinite_last [of "h1 @ [radii (h1 ! d)]" w] by simp
  have g: "py_bind (get_key_props ph diameter surface_tension contact_angle) k h =
           k (entity, sa, ta) h1" for k :: "string \<times> addr \<times> addr \<Rightarrow> addr py"
    using gk by (simp add: py_bind_def)
  have s': "py_bind (slice_to_scope phys ph entity ?v) k (h1 @ [radii (h1 ! d)]) =
            k (Suc (length h1))
              (h1 @ [radii (h1 ! d), map (\<lambda>i. ?v ! i) (scope_indices phys ph entity)])"
    for k :: "addr \<Rightarrow> addr py"
    using s by (simp add: py_bind_def)
  have z': "py_bind (zero_infinite (Suc (length h1))) k (h1 @ [radii (h1 ! d), w]) =
            k () (h1 @ [radii (h1 ! d), map zero_inf w])" for w and k :: "unit \<Rightarrow> addr py"
    using z [of w] by (simp add: py_bind_def)
  show ?thesis
    unfolding washburn_def
    by (simp add: g radius_steps [OF d(1,3,2)] nth_append a f s' m z' o_def)
qed


lemma purcell_run:
  assumes gk: "get_key_props ph diameter surface_tension contact_angle h =
               (Inr (entity, sa, ta), h1)"
    and d: "net_props net diameter = Some d" "d < length h1" "h1 ! d \<noteq> []"
    and a: "sa < length h1" "ta < length h1"
    and len: "length (h1 ! sa) = length (h1 ! d)" "length (h1 ! ta) = length (h1 ! d)"
    and idx: "\<forall>i \<in> set (scope_indices phys ph entity). i < length (h1 ! d)"
  shows "purcell phys ph net R surface_tension contact_angle diameter h =
         (Inr (Suc (length h1)),
          h1 @ [radii (h1 ! d),
                map (\<lambda>i. purcell_elem (h1 ! sa ! i) (h1 ! ta ! i) (radii (h1 ! d) ! i) R)
                    (scope_indices phys ph entity)])"
proof -
  let ?n = "length (h1 ! d)"
  let ?v = "map (\<lambda>i. purcell_elem (h1 ! sa ! i) (h1 ! ta ! i) (radii (h1 ! d) ! i) R) [0..<?n]"
  have f: "purcell_formula (h1 ! sa) (h1 ! ta) (radii (h1 ! d)) R = Inr ?v"
    by (rule purcell_formula_elem) (simp_all add: len)
  have s: "slice_to_scope phys ph entity ?v (h1 @ [radii (h1 ! d)]) =
           (Inr (Suc (length h1)),
            h1 @ [radii (h1 ! d), map (\<lambda>i. ?v ! i) (scope_indices phys ph entity)])"
    using slice_to_scope_in_range [of phys ph entity ?v "h1 @ [radii (h1 ! d)]"] idx by simp
  have m: "map (\<lambda>i. ?v ! i) (scope_indices phys ph entity) =
           map (\<lambda>i. purcell_elem (h1 ! sa ! i) (h1 ! ta ! i) (radii (h1 ! d) ! i) R)
               (scope_indices phys ph entity)"
    using idx by simp
  have g: "py_bind (get_key_props ph diameter surface_tension contact_angle) k h =
           k (entity, sa, ta) h1" for k :: "string \<times> addr \<times> addr \<Rightarrow> addr py"
    using gk by (simp add: py_bind_def)
  have s': "py_bind (slice_to_scope phys ph entity ?v) k (h1 @ [radii (h1 ! d)]) =
            k (Suc (length h1))
              (h1 @ [radii (h1 ! d), map (\<lambda>i. ?v ! i) (scope_indices phys ph entity)])"
    for k :: "addr \<Rightarrow> addr py"
    using s by (simp add: py_bind_def)
  show ?thesis
    unfolding purcell_def
    by (simp add: g radius_steps [OF d(1,3,2)] nth_append a f s' m)
qed

lemma cuboid_run:
  assumes gk: "get_key_props ph diameter surface_tension contact_angle h =
               (Inr (entity, sa, ta), h1)"
    and d: "net_props net diameter = Some d" "d < length h1" "h1 ! d \<noteq> []"
    and a: "sa < length h1" "ta < length h1" "ta \<noteq> sa" "ta \<noteq> d"
    and len: "length (h1 ! sa) = length (h1 ! d)" "length (h1 ! ta) = length (h1 ! d)"
    and idx: "\<forall>i \<in> set (scope_indices phys ph entity). i < length (h1 ! d)"
    and trad: "trad = map (\<lambda>t. fmul t (Fin (2 * pi / 360))) (h1 ! ta)"
  shows "cuboid phys ph net surface_tension contact_angle diameter h =
         (Inr (Suc (length h1)),
          h1[ta := trad] @
            [radii (h1 ! d),
             map (\<lambda>i. zero_inf (cuboid_elem (h1 ! sa ! i) (trad ! i) (radii (h1 ! d) ! i)))
                 (scope_indices phys ph entity)])"
proof -
  let ?n = "length (h1 ! d)"
  let ?h2 = "h1[ta := trad]"
  let ?v = "map (\<lambda>i. cuboid_elem (h1 ! sa ! i) (trad ! i) (radii (h1 ! d) ! i)) [0..<?n]"
  have keep: "?h2 ! d = h1 ! d" "?h2 ! sa = h1 ! sa" "?h2 ! ta = trad" "length ?h2 = length h1"
    using a d by simp_all
  have d2: "d < length ?h2" "?h2 ! d \<noteq> []"
    using d keep by simp_all
  have f: "cuboid_formula (h1 ! sa) trad (radii (h1 ! d)) = Inr ?v"
    by (rule cuboid_formula_elem) (simp_all add: len trad)
  have s: "slice_to_scope phys ph entity ?v (?h2 @ [radii (h1 ! d)]) =
           (Inr (Suc (length h1)),
            ?h2 @ [radii (h1 ! d), map (\<lambda>i. ?v ! i) (scope_indices phys ph entity)])"
    using slice_to_scope_in_range [of phys ph entity ?v "?h2 @ [radii (h1 ! d)]"] idx by simp
  have m: "map (\<lambda>i. ?v ! i) (scope_indices phys ph entity) =
           map (\<lambda>i. cuboid_elem (h1 ! sa ! i) (trad ! i) (radii (h1 ! d) ! i))
               (scope_indices phys ph entity)"
    using idx by simp
  have z: "zero_infinite (Suc (length h1)) (?h2 @ [radii (h1 ! d), w]) =
           (Inr (), ?h2 @ [radii (h1 ! d), map zero_inf w])" for w
    using zero_infinite_last [of "?h2 @ [radii (h1 ! d)]" w] by simp
  have g: "py_bind (get_key_props ph diameter surface_tension contact_angle) k h =
           k (entity, sa, ta) h1" for k :: "string \<times> addr \<times> addr \<Rightarrow> addr py"
    using gk by (simp add: py_bind_def)
  have s': "py_bind (slice_to_scope phys ph entity ?v) k (?h2 @ [radii (h1 ! d)]) =
            k (Suc (length h1))
              (?h2 @ [radii (h1 ! d), map (\<lambda>i. ?v ! i) (scope_indices phys ph entity)])"
    for k :: "addr \<Rightarrow> addr py"
    using s by (simp add: py_bind_def)
  have z': "py_bind (zero_infinite (Suc (length h1))) k (?h2 @ [radii (h1 ! d), w]) =
            k () (?h2 @ [radii (h1 ! d), map zero_inf w])" for w and k :: "unit \<Rightarrow> addr py"
    using z [of w] by (simp add: py_bind_def)
  have r: "py_bind (half_diameter net diameter)
             (\<lambda>r. py_bind (handle_zeros r ''max'' None) k) ?h2 =
           k (length h1) (?h2 @ [radii (h1 ! d)])" for k :: "addr \<Rightarrow> addr py"
    using radius_steps [OF d(1) d2(2) d2(1), of k] keep by simp
  have t: "map (\<lambda>t. fmul t (Fin (pi / 180))) (h1 ! ta) = trad"
    by (simp add: trad)
  show ?thesis
    unfolding cuboid_def
    by (simp add: g t r nth_append a keep f s' m z' o_def)
qed

lemma kelvin_run:
  assumes keys: "ph_props ph temperature = Some T" "ph_props ph vapor_pressure = Some P0"
      "ph_props ph molecular_weight = Some M" "ph_props ph density = Some rho"
      "ph_props ph surface_tension = Some gamma"
    and d: "net_props net diameter = Some d" "d < length h" "h ! d \<noteq> []"
    and a: "T < length h" "P0 < length h" "M < length h" "rho < length h" "gamma < length h"
    and len: "length (h ! T) = length (h ! d)" "length (h ! P0) = length (h ! d)"
      "length (h ! M) = length (h ! d)" "length (h ! rho) = length (h ! d)"
      "length (h ! gamma) = length (h ! d)"
  shows "kelvin phys ph net diameter temperature vapor_pressure molecular_weight density
           surface_tension h =
         (Inr (Suc (length h)),
          h @ [radii (h ! d),
               map (\<lambda>i. kelvin_elem (h ! T ! i) (h ! P0 ! i) (h ! M ! i) (h ! rho ! i)
                           (h ! gamma ! i) (radii (h ! d) ! i))
                   [0..<length (h ! d)]])"
proof -
  have f: "kelvin_formula (h ! T) (h ! P0) (h ! M) (h ! rho) (h ! gamma) (radii (h ! d)) =
           Inr (map (\<lambda>i. kelvin_elem (h ! T ! i) (h ! P0 ! i) (h ! M ! i) (h ! rho ! i)
                           (h ! gamma ! i) (radii (h ! d) ! i)) [0..<length (h ! d)])"
    by (rule kelvin_formula_elem) (simp_all add: len)
  show ?thesis
    unfolding kelvin_def
    by (simp add: keys radius_steps [OF d(1,3,2)] nth_append a f)
qed

subsection \<open>The example objects\<close>

lemma key_entity_examples [simp]:
  "key_entity ''pore.surface_tension'' = ''pore''"
  "key_entity ''pore.contact_angle'' = ''pore''"
  "key_entity ''throat.contact_angle'' = ''throat''"
  "key_entity ''throat.diameter'' = ''throat''"
  "key_entity ''pore.diameter'' = ''pore''"
  by (simp_all add: key_entity_def)

lemma pore_phase_key_props:
  "get_key_props pore_phase ''throat.diameter'' ''pore.surface_tension'' ''pore.contact_angle''
     [dv, [s0, s1], [t0, t1]] =
   (Inr (''throat'', 3, 4),
    [dv, [s0, s1], [t0, t1], [fdiv (fadd s0 s1) (Fin 2)], [fdiv (fadd t0 t1) (Fin 2)]])"
  by (simp add: get_key_props_def pore_phase_def line_phase_def interpolate_data_def np_take_def)

lemma radii_single: "radii [Fin x] = [Fin (x / 2)]"
  by (simp add: radii_def Let_def)

lemma scope_throat_example [simp]:
  "scope_indices (phys_obj props) pore_phase ''throat'' = [0]"
  by (simp add: scope_indices_def phys_obj_def pore_phase_def line_phase_def)

lemma purcell_line:
  "purcell (phys_obj Map.empty) pore_phase throat_net R
     ''pore.surface_tension'' ''pore.contact_angle'' ''throat.diameter''
     [[Fin dm], [Fin s, Fin s], [Fin t, Fin t]] =
   (Inr 6,
    [[Fin dm], [Fin s, Fin s], [Fin t, Fin t], [Fin s], [Fin t], [Fin (dm / 2)],
     [purcell_elem (Fin s) (Fin t) (Fin (dm / 2)) R]])"
  by (simp add: purcell_run [OF pore_phase_key_props, where d = 0] throat_net_def line_net_def
      radii_single)

lemma washburn_line:
  "washburn (phys_obj Map.empty) pore_phase throat_net
     ''pore.surface_tension'' ''pore.contact_angle'' ''throat.diameter''
     [[Fin dm], [Fin s, Fin s], [Fin t, Fin t]] =
   (Inr 6,
    [[Fin dm], [Fin s, Fin s], [Fin t, Fin t], [Fin s], [Fin t], [Fin (dm / 2)],
     [zero_inf (washburn_elem (Fin s) (Fin t) (Fin (dm / 2)))]])"
  by (simp add: washburn_run [OF pore_phase_key_props, where d = 0] throat_net_def line_net_def
      radii_single)

subsection \<open>Purcell on finite values\<close>

lemma purcell_alpha_elem_finite:
  assumes "R \<noteq> 0" and "1 + r / R \<noteq> 0"
  shows "purcell_alpha_elem (Fin t) (Fin r) (Fin R) =
         Fin (t - 180 + arcsin (sin (t * (pi / 180) / (1 + r / R))))"
  using assms by (simp add: purcell_alpha_elem_def fradians_def fsub_def)

lemma purcell_elem_finite:
  assumes "purcell_alpha_elem (Fin t) (Fin r) (Fin R) = Fin a" and "r \<noteq> 0"
    and "1 + R / r * (1 - cos (a * (pi / 180))) \<noteq> 0"
  shows "purcell_elem (Fin s) (Fin t) (Fin r) (Fin R) =
         Fin ((- 2 * s / r) *
              (cos ((t - a) * (pi / 180)) / (1 + R / r * (1 - cos (a * (pi / 180))))))"
  unfolding purcell_elem_def Let_def assms(1)
  using assms(2,3) by (simp add: fradians_def fsub_def)

lemma cos_pi_sq_less_one: "cos (pi * pi / 360) < 1"
proof -
  have "0 < pi * pi / 720" by simp
  moreover have "pi * pi / 720 < 2"
  proof -
    have "pi * pi < 4 * 4"
      using pi_less_4 pi_gt_zero by (intro mult_strict_mono) simp_all
    then show ?thesis by simp
  qed
  ultimately have "cos (2 * (pi * pi / 720)) < 1"
    by (rule cos_double_less_one)
  then show ?thesis by simp
qed

lemma purcell_elem_at_180:
  "purcell_elem (Fin 1) (Fin 180) (Fin 1) (Fin 1) =
   Fin (2 * cos (pi * pi / 360) / (2 - cos (pi * pi / 360)))"
proof -
  have a: "(180 - pi / 2) * (pi / 180) = pi - pi * pi / 360"
    by (simp add: field_simps)
  have b: "2 - cos (pi * pi / 360) \<noteq> 0"
    using cos_le_one [of "pi * pi / 360"] by linarith
  have c: "purcell_alpha_elem (Fin 180) (Fin 1) (Fin 1) = Fin (pi / 2)"
    by (simp add: purcell_alpha_elem_finite)
  have "purcell_elem (Fin 1) (Fin 180) (Fin 1) (Fin 1) =
        Fin ((- 2 * 1 / 1) *
             (cos ((180 - pi / 2) * (pi / 180)) / (1 + 1 / 1 * (1 - cos (pi / 2 * (pi / 180))))))"
    using b by (intro purcell_elem_finite [OF c]) simp_all
  also have "\<dots> = Fin (2 * cos (pi * pi / 360) / (2 - cos (pi * pi / 360)))"
    unfolding a by simp
  finally show ?thesis .
qed

lemma purcell_claimed_at_180: "purcell_claimed 1 180 1 1 = 2"
  by (simp add: purcell_claimed_def)

lemma purcell_elem_infinite:
  "purcell_elem (Fin 1) (Fin 0) (Fin 2) (Fin (- 1)) = PInf"
  by (simp add: purcell_elem_def purcell_alpha_elem_def Let_def fradians_def fsub_def)

lemma purcell_elem_out_of_domain:
  "purcell_elem (Fin 1) (Fin 90) (Fin 1) (Fin (- 2)) = Fin (- 2)"
  by (simp add: purcell_elem_def purcell_alpha_elem_def Let_def fradians_def fsub_def)

lemma washburn_elem_finite:
  "r \<noteq> 0 \<Longrightarrow>
   washburn_elem (Fin s) (Fin t) (Fin r) = Fin (- 2 * s * cos (t * (pi / 180)) / r)"
  by (simp add: washburn_elem_def fradians_def)

lemma zero_inf_Fin [simp]: "zero_inf (Fin x) = Fin x"
  by (simp add: zero_inf_def)

subsection \<open>The sign of the cosine in degrees\<close>

lemma cos_degrees_neg:
  assumes "90 < t" and "t < 270"
  shows "cos (t * (pi / 180)) < 0"
proof -
  have "90 * (pi / 180) < t * (pi / 180)" and "t * (pi / 180) < 270 * (pi / 180)"
    using assms by (intro mult_strict_right_mono; simp)+
  moreover have "90 * (pi / 180) = pi / 2" and "270 * (pi / 180) = pi + pi / 2"
    by simp_all
  ultimately have "- (pi / 2) < t * (pi / 180) - pi" and "t * (pi / 180) - pi < pi / 2"
    by linarith+
  then have "0 < cos (t * (pi / 180) - pi)"
    by (rule cos_gt_zero_pi)
  then show ?thesis by simp
qed

lemma cos_degrees_pos:
  assumes "- 90 < t" and "t < 90"
  shows "0 < cos (t * (pi / 180))"
proof -
  have "(- 90) * (pi / 180) < t * (pi / 180)" and "t * (pi / 180) < 90 * (pi / 180)"
    using assms by (intro mult_strict_right_mono; simp)+
  moreover have "(- 90) * (pi / 180) = - (pi / 2)" and "90 * (pi / 180) = pi / 2"
    by simp_all
  ultimately have "- (pi / 2) < t * (pi / 180)" and "t * (pi / 180) < pi / 2"
    by linarith+
  then show ?thesis
    by (rule cos_gt_zero_pi)
qed

subsection \<open>Zero replacement on arrays of radii\<close>

lemma foldl_fmax_Fin: "foldl fmax (Fin x) (map Fin ys) = Fin (Max (set (x # ys)))"
proof (induction ys arbitrary: x)
  case Nil
  then show ?case by simp
next
  case (Cons y ys)
  have "Max (insert (max x y) (set ys)) = Max (insert x (insert y (set ys)))"
    by (cases "ys = []") (simp_all add: max.assoc)
  then show ?case
    using Cons.IH [of "max x y"] by simp
qed

lemma np_max_Fin: "rs \<noteq> [] \<Longrightarrow> np_max (map Fin rs) = Inr (Fin (Max (set rs)))"
  by (cases rs) (simp_all add: np_max_def foldl_fmax_Fin)

lemma handle_zeros_max_radii:
  assumes "a < length h" and "h ! a = map Fin rs" and "\<forall>r \<in> set rs. 0 \<le> r"
    and "\<exists>r \<in> set rs. r \<noteq> 0"
  shows "handle_zeros a ''max'' None h =
         (Inr a, h[a := map (\<lambda>r. Fin (if r = 0 then Max (set rs) else r)) rs])"
    and "0 < Max (set rs)"
    and "Max (set rs) = Max {r \<in> set rs. r \<noteq> 0}"
proof -
  obtain x ys where rs: "rs = x # ys"
    using assms(4) by (cases rs) auto
  have m: "foldl fmax (hd (h ! a)) (tl (h ! a)) = Fin (Max (set rs))"
    by (simp add: assms(2) rs foldl_fmax_Fin)
  have "h ! a \<noteq> []"
    by (simp add: assms(2) rs)
  then have "handle_zeros a ''max'' None h =
        (Inr a, h[a := map (\<lambda>x. if feq x (Fin 0) then Fin (Max (set rs)) else x) (h ! a)])"
    using handle_zeros_max [OF assms(1)] by (simp add: m cong: if_cong)
  also have "map (\<lambda>x. if feq x (Fin 0) then Fin (Max (set rs)) else x) (h ! a) =
             map (\<lambda>r. Fin (if r = 0 then Max (set rs) else r)) rs"
    by (simp add: assms(2))
  finally show "handle_zeros a ''max'' None h =
         (Inr a, h[a := map (\<lambda>r. Fin (if r = 0 then Max (set rs) else r)) rs])" .
  obtain r where r: "r \<in> set rs" "r \<noteq> 0"
    using assms(4) by blast
  then have "0 < r"
    using assms(3) by fastforce
  moreover have "r \<le> Max (set rs)"
    using r(1) by simp
  ultimately show pos: "0 < Max (set rs)"
    by linarith
  have fin: "finite {r \<in> set rs. r \<noteq> 0}" and ne: "{r \<in> set rs. r \<noteq> 0} \<noteq> {}"
    using r by auto
  have "Max (set rs) \<in> set rs"
    using r(1) by (intro Max_in) auto
  then have "Max (set rs) \<in> {r \<in> set rs. r \<noteq> 0}"
    using pos by simp
  then have "Max (set rs) \<le> Max {r \<in> set rs. r \<noteq> 0}"
    using fin by (intro Max_ge) 
  moreover have "Max {r \<in> set rs. r \<noteq> 0} \<le> Max (set rs)"
    using ne by (intro Max_mono) auto
  ultimately show "Max (set rs) = Max {r \<in> set rs. r \<noteq> 0}"
    by linarith
qed

lemma handle_zeros_max_below_zero:
  "handle_zeros 0 ''max'' None [[Fin (- 1), Fin 0]] = (Inr 0, [[Fin (- 1), Fin 0]])"
  by (simp add: handle_zeros_def np_max_def)

lemma handle_zeros_min_mean:
  "handle_zeros a ''min'' None h = (Inl TypeError, h)"
  "handle_zeros a ''mean'' None h = (Inl TypeError, h)"
  by (simp_all add: handle_zeros_def np_invert_def)

subsection \<open>Cuboid on the example network\<close>

lemma throat_angle_phase_key_props:
  "get_key_props throat_angle_phase ''throat.diameter'' ''pore.surface_tension''
     ''throat.contact_angle'' [dv, [s0, s1], tv] =
   (Inr (''throat'', 3, 2), [dv, [s0, s1], tv, [fdiv (fadd s0 s1) (Fin 2)]])"
  by (simp add: get_key_props_def throat_angle_phase_def line_phase_def interpolate_data_def
      np_take_def)

lemma cuboid_Theta_pi: "cuboid_Theta (Fin pi) = NaN"
proof -
  have "pi / 4 - pi < 0"
    using pi_gt_zero by linarith
  then have "\<not> 0 \<le> pi / 4 - pi"
    by (simp only: not_le)
  then show ?thesis
    by (simp add: cuboid_Theta_def fsub_def del: diff_ge_0_iff_ge)
qed

subsection \<open>Kelvin and the throat reduction on the example network\<close>

lemma kelvin_line:
  "kelvin (phys_obj Map.empty) vapor_phase pore_net ''pore.diameter'' ''pore.temperature''
     ''pore.vapor_pressure'' ''pore.molecular_weight'' ''pore.density'' ''pore.surface_tension''
     [[d0, d1], [T0, T1], [p0, p1], [M0, M1], [rho0, rho1], [g0, g1]] =
   (Inr 7,
    [[d0, d1], [T0, T1], [p0, p1], [M0, M1], [rho0, rho1], [g0, g1], radii [d0, d1],
     [kelvin_elem T0 p0 M0 rho0 g0 (radii [d0, d1] ! 0),
      kelvin_elem T1 p1 M1 rho1 g1 (radii [d0, d1] ! 1)]])"
  using kelvin_run [where ph = vapor_phase and net = pore_net and d = 0 and T = 1 and ?P0.0 = 2
      and M = 3 and rho = 4 and gamma = 5
      and h = "[[d0, d1], [T0, T1], [p0, p1], [M0, M1], [rho0, rho1], [g0, g1]]"
      and diameter = "''pore.diameter''" and temperature = "''pore.temperature''"
      and vapor_pressure = "''pore.vapor_pressure''"
      and molecular_weight = "''pore.molecular_weight''" and density = "''pore.density''"
      and surface_tension = "''pore.surface_tension''" and phys = "phys_obj Map.empty"]
  by (simp add: vapor_phase_def pore_net_def line_phase_def line_net_def upt_rec [of 0 2]
      upt_rec [of 1 2] upt_rec [of 2 2])

lemma from_throat_line:
  "from_throat (phys_obj [''throat.capillary_pressure'' \<mapsto> 0]) ph (line_net Map.empty)
     ''throat.capillary_pressure'' ''min'' [[x]] =
   (Inr 1, [[x], [x, x]])"
  by (simp add: from_throat_def functions_dict_def line_net_def phys_obj_def np_take_def
      np_min_def find_neighbor_throats_def numeral_2_eq_2 upt_rec [of 0 "Suc _"]
      upt_rec [of "Suc 0" "Suc _"])

subsection \<open>The loop of the throat reduction\<close>

lemma functions_dict_cases:
  "functions_dict ''min'' = Some np_min"
  "functions_dict ''max'' = Some np_max"
  "functions_dict ''mean'' = Some np_mean"
  "op \<noteq> ''min'' \<Longrightarrow> op \<noteq> ''max'' \<Longrightarrow> op \<noteq> ''mean'' \<Longrightarrow> functions_dict op = None"
  by (simp_all add: functions_dict_def)

lemma from_throat_loop_result:
  assumes "from_throat_loop phys net cp op val is h = (Inr u, h')"
    and "functions_dict op = Some f" and "phys_props phys cp = Some pc"
    and "pc \<noteq> val" and "val < length h" and "distinct is"
    and "\<forall>i \<in> set is. i < length (h ! val)"
  shows "\<exists>v'. h' = h[val := v'] \<and> length v' = length (h ! val)
           \<and> (\<forall>i \<in> set is. f (map (\<lambda>t. h ! pc ! t) (find_neighbor_throats net i)) = Inr (v' ! i))
           \<and> (\<forall>k. k \<notin> set is \<longrightarrow> v' ! k = h ! val ! k)"
  using assms(1,5,6,7)
proof (induction "is" arbitrary: h)
  case Nil
  then have "h' = h[val := h ! val]" by simp
  then show ?case
    by (intro exI [of _ "h ! val"]) simp
next
  case (Cons i rest)
  let ?ts = "find_neighbor_throats net i"
  obtain sel where sel: "np_take (h ! pc) ?ts = Inr sel"
    using Cons.prems(1) assms(2,3) by (cases "np_take (h ! pc) ?ts") simp_all
  then have sel_eq: "sel = map (\<lambda>t. h ! pc ! t) ?ts"
    by (simp add: np_take_InrD)
  obtain x where x: "f sel = Inr x"
    using Cons.prems(1) assms(2,3) sel by (cases "f sel") simp_all
  let ?h1 = "h[val := (h ! val)[i := x]]"
  have step: "from_throat_loop phys net cp op val rest ?h1 = (Inr u, h')"
    using Cons.prems(1) assms(2,3) sel x by simp
  have h1: "?h1 ! pc = h ! pc" "?h1 ! val = (h ! val)[i := x]" "length ?h1 = length h"
    using assms(4) Cons.prems(2) by simp_all
  have "\<exists>v'. h' = ?h1[val := v'] \<and> length v' = length (?h1 ! val)
           \<and> (\<forall>k \<in> set rest. f (map (\<lambda>t. ?h1 ! pc ! t) (find_neighbor_throats net k)) = Inr (v' ! k))
           \<and> (\<forall>k. k \<notin> set rest \<longrightarrow> v' ! k = ?h1 ! val ! k)"
    using Cons.prems(2,3,4) by (intro Cons.IH [OF step]) (simp_all add: h1)
  then obtain v' where v': "h' = ?h1[val := v']" "length v' = length (h ! val)"
      "\<forall>k \<in> set rest. f (map (\<lambda>t. h ! pc ! t) (find_neighbor_throats net k)) = Inr (v' ! k)"
      "\<forall>k. k \<notin> set rest \<longrightarrow> v' ! k = (h ! val)[i := x] ! k"
    by (auto simp: h1)
  have "i \<notin> set rest" and "i < length (h ! val)"
    using Cons.prems(3,4) by simp_all
  then have "v' ! i = x"
    using v'(4) by simp
  then have "f (map (\<lambda>t. h ! pc ! t) ?ts) = Inr (v' ! i)"
    using x sel_eq by simp
  moreover have "\<forall>k. k \<notin> set (i # rest) \<longrightarrow> v' ! k = h ! val ! k"
    using v'(4) by simp
  moreover have "h' = h[val := v']"
    using v'(1) by simp
  ultimately show ?case
    using v'(2,3) by auto
qed

lemma from_throat_loop_returns:
  assumes "functions_dict op = Some f" and "phys_props phys cp = Some pc" and "pc \<noteq> val"
    and "\<forall>i \<in> set is. \<forall>t \<in> set (find_neighbor_throats net i). t < length (h ! pc)"
    and "\<forall>i \<in> set is. \<exists>x. f (map (\<lambda>t. h ! pc ! t) (find_neighbor_throats net i)) = Inr x"
  shows "\<exists>h'. from_throat_loop phys net cp op val is h = (Inr (), h')"
  using assms(4,5)
proof (induction "is" arbitrary: h)
  case Nil
  then show ?case by simp
next
  case (Cons i rest)
  let ?ts = "find_neighbor_throats net i"
  have sel: "np_take (h ! pc) ?ts = Inr (map (\<lambda>t. h ! pc ! t) ?ts)"
    using Cons.prems(1) by (intro np_take_in_range) simp
  obtain x where x: "f (map (\<lambda>t. h ! pc ! t) ?ts) = Inr x"
    using Cons.prems(2) by auto
  let ?h1 = "h[val := (h ! val)[i := x]]"
  have h1: "?h1 ! pc = h ! pc"
    using assms(3) by simp
  have "\<exists>h'. from_throat_loop phys net cp op val rest ?h1 = (Inr (), h')"
    using Cons.prems by (intro Cons.IH) (simp_all add: h1)
  then show ?case
    using assms(1,2) sel x by simp
qed

lemma np_mean_total: "\<exists>x. np_mean sel = Inr x"
  by (simp add: np_mean_def)

lemma np_min_total: "sel \<noteq> [] \<Longrightarrow> \<exists>x. np_min sel = Inr x"
  by (cases sel) (simp_all add: np_min_def)

lemma np_max_total: "sel \<noteq> [] \<Longrightarrow> \<exists>x. np_max sel = Inr x"
  by (cases sel) (simp_all add: np_max_def)

lemma from_throat_unknown_operator:
  "op \<noteq> ''min'' \<Longrightarrow> op \<noteq> ''max'' \<Longrightarrow>
   from_throat phys ph net cp op = from_throat phys ph net cp ''mean''"
  by (cases "op = ''mean''") (simp_all add: from_throat_def functions_dict_def dom_def)

lemma from_throat_unfold:
  "from_throat phys ph net cp op h =
   (case from_throat_loop phys net cp (if op \<notin> dom functions_dict then ''mean'' else op)
           (length h) [0..<Np net] (h @ [replicate (Np net) (Fin 0)]) of
      (Inl e, h') \<Rightarrow> (Inl e, h')
    | (Inr u, h') \<Rightarrow> (Inr (length h), h'))"
  by (simp add: from_throat_def py_bind_def split: prod.splits sum.splits)

lemma from_throat_result:
  assumes "from_throat phys ph net cp op h = (Inr a, h')"
    and "functions_dict op = Some f" and "phys_props phys cp = Some pc" and "pc < length h"
  shows "length (h' ! a) = Np net \<and>
         (\<forall>i < Np net. f (map (\<lambda>t. h ! pc ! t) (find_neighbor_throats net i)) = Inr (h' ! a ! i))"
proof -
  let ?h0 = "h @ [replicate (Np net) (Fin 0)]"
  have op: "op \<in> dom functions_dict"
    using assms(2) by auto
  obtain u where loop: "from_throat_loop phys net cp op (length h) [0..<Np net] ?h0 = (Inr u, h')"
    and a: "a = length h"
    using assms(1) op
    by (cases "from_throat_loop phys net cp op (length h) [0..<Np net] ?h0")
       (auto simp: from_throat_def py_bind_def split: sum.splits)
  have "\<exists>v'. h' = ?h0[length h := v'] \<and> length v' = length (?h0 ! length h)
           \<and> (\<forall>i \<in> set [0..<Np net].
                 f (map (\<lambda>t. ?h0 ! pc ! t) (find_neighbor_throats net i)) = Inr (v' ! i))
           \<and> (\<forall>k. k \<notin> set [0..<Np net] \<longrightarrow> v' ! k = ?h0 ! length h ! k)"
    using assms(4) by (intro from_throat_loop_result [OF loop assms(2,3)]) simp_all
  then obtain v' where v': "h' = ?h0[length h := v']" "length v' = Np net"
      "\<forall>i < Np net. f (map (\<lambda>t. h ! pc ! t) (find_neighbor_throats net i)) = Inr (v' ! i)"
    using assms(4) by (auto simp: nth_append)
  have "h' ! a = v'"
    using v'(1) a by simp
  then show ?thesis
    using v'(2,3) by simp
qed


lemma foldl_fmin_Fin: "foldl fmin (Fin x) (map Fin ys) = Fin (Min (set (x # ys)))"
proof (induction ys arbitrary: x)
  case Nil
  then show ?case by simp
next
  case (Cons y ys)
  have "Min (insert (min x y) (set ys)) = Min (insert x (insert y (set ys)))"
    by (cases "ys = []") (simp_all add: min.assoc)
  then show ?case
    using Cons.IH [of "min x y"] by simp
qed

lemma np_min_Fin: "rs \<noteq> [] \<Longrightarrow> np_min (map Fin rs) = Inr (Fin (Min (set rs)))"
  by (cases rs) (simp_all add: np_min_def foldl_fmin_Fin)

lemma foldl_fadd_Fin: "foldl fadd (Fin a) (map Fin rs) = Fin (a + sum_list rs)"
  by (induction rs arbitrary: a) (simp_all add: add.assoc)

lemma np_mean_Fin: "np_mean (map Fin rs) = Inr (fdiv (Fin (sum_list rs)) (Fin (real (length rs))))"
  by (simp add: np_mean_def foldl_fadd_Fin)

lemma find_neighbor_throats_line:
  "i < 2 \<Longrightarrow> find_neighbor_throats (line_net props) i = [0]"
  by (auto simp: find_neighbor_throats_def line_net_def less_2_cases_iff)

subsection \<open>The cluster labels\<close>

lemma length_relabel [simp]: "length (relabel occ lab c) = length lab"
  by (cases c) (simp add: relabel_def Let_def)

lemma relabel_unoccupied:
  assumes "\<not> (p < length occ \<and> occ ! p)"
  shows "relabel occ lab c ! p = lab ! p"
proof (cases c)
  case (Pair a b)
  show ?thesis
  proof (cases "a < length lab \<and> b < length lab \<and> a < length occ \<and> b < length occ
                 \<and> occ ! a \<and> occ ! b")
    case True
    then have "p \<noteq> a" and "p \<noteq> b"
      using assms by auto
    then show ?thesis
      using True Pair by (simp add: relabel_def Let_def)
  next
    case False
    then show ?thesis
      using Pair by (auto simp: relabel_def)
  qed
qed

lemma foldl_relabel:
  "length (foldl (relabel occ) lab cs) = length lab \<and>
   (\<not> (p < length occ \<and> occ ! p) \<longrightarrow> foldl (relabel occ) lab cs ! p = lab ! p)"
  by (induction cs arbitrary: lab) (simp_all add: relabel_unoccupied)

lemma occupied_map_truthy:
  "(p < length (map truthy occupancy) \<and> map truthy occupancy ! p) = occupied occupancy p"
  by (auto simp: occupied_def)

lemma sym_adjacent: "sym (adjacent net occupancy)"
  by (auto simp: sym_def adjacent_def)

lemma cluster_sym: "q \<in> cluster net occupancy p \<Longrightarrow> p \<in> cluster net occupancy q"
  unfolding cluster_def using sym_rtrancl [OF sym_adjacent] by (auto dest: symD)

lemma cluster_trans:
  "q \<in> cluster net occupancy p \<Longrightarrow> r \<in> cluster net occupancy q \<Longrightarrow> r \<in> cluster net occupancy p"
  unfolding cluster_def by auto

lemma cluster_refl [simp]: "p \<in> cluster net occupancy p"
  by (simp add: cluster_def)

lemma cluster_step:
  "(a, b) \<in> adjacent net occupancy \<Longrightarrow> q \<in> cluster net occupancy b \<Longrightarrow> q \<in> cluster net occupancy a"
  unfolding cluster_def by (auto intro: converse_rtrancl_into_rtrancl)

lemma cluster_members_occupied:
  assumes "q \<in> cluster net occupancy p" and "q \<noteq> p"
  shows "q < Np net \<and> occupied occupancy q \<and> p < Np net \<and> occupied occupancy p"
proof -
  have "(p, q) \<in> (adjacent net occupancy)\<^sup>*"
    using assms(1) by (simp add: cluster_def)
  then show ?thesis
    using assms(2)
  proof (induction rule: rtrancl_induct)
    case base
    then show ?case by simp
  next
    case (step y z)
    then show ?case
      by (cases "y = p") (auto simp: adjacent_def)
  qed
qed

lemma relabel_ok:
  assumes "labels_ok net occupancy lab" and "c \<in> set (conns net)"
  shows "labels_ok net occupancy (relabel (map truthy occupancy) lab c)"
proof (cases c)
  case (Pair a b)
  let ?occ = "map truthy occupancy"
  show ?thesis
  proof (cases "a < length lab \<and> b < length lab \<and> a < length ?occ \<and> b < length ?occ
                 \<and> ?occ ! a \<and> ?occ ! b")
    case False
    then have "relabel ?occ lab c = lab"
      using Pair by (auto simp: relabel_def)
    then show ?thesis
      using assms(1) by simp
  next
    case True
    then have ab: "a < Np net" "b < Np net" "occupied occupancy a" "occupied occupancy b"
      using assms(1) by (auto simp: labels_ok_def occupied_def)
    have adj: "(a, b) \<in> adjacent net occupancy" "(b, a) \<in> adjacent net occupancy"
      using ab assms(2) Pair by (auto simp: adjacent_def)
    let ?m = "min (lab ! a) (lab ! b)"
    have la: "0 \<le> lab ! a" "lab ! a \<le> int a" "nat (lab ! a) \<in> cluster net occupancy a"
      and lb: "0 \<le> lab ! b" "lab ! b \<le> int b" "nat (lab ! b) \<in> cluster net occupancy b"
      using assms(1) ab by (auto simp: labels_ok_def)
    have m: "0 \<le> ?m" "?m \<le> int a" "?m \<le> int b"
      "nat ?m \<in> cluster net occupancy a" "nat ?m \<in> cluster net occupancy b"
      using la lb adj by (auto simp: min_def intro: cluster_step)
    have new: "relabel ?occ lab c = lab[a := ?m, b := ?m]"
      using True Pair by (simp add: relabel_def Let_def)
    have len: "length lab = Np net"
      using assms(1) by (simp add: labels_ok_def)
    show ?thesis
      unfolding labels_ok_def new
    proof (intro conjI allI impI)
      show "length (lab[a := ?m, b := ?m]) = Np net"
        using len by simp
    next
      fix p
      assume p: "p < Np net"
      consider "p = b" | "p \<noteq> b" "p = a" | "p \<noteq> b" "p \<noteq> a"
        by blast
      then show "if occupied occupancy p
         then 0 \<le> lab[a := ?m, b := ?m] ! p \<and> lab[a := ?m, b := ?m] ! p \<le> int p \<and>
              nat (lab[a := ?m, b := ?m] ! p) \<in> cluster net occupancy p
         else lab[a := ?m, b := ?m] ! p = - 1"
      proof cases
        case 1
        then show ?thesis
          using m ab len by simp
      next
        case 2
        then show ?thesis
          using m ab len by simp
      next
        case 3
        then show ?thesis
          using assms(1) p by (simp add: labels_ok_def)
      qed
    qed
  qed
qed

lemma relabel_le:
  "i < length lab \<Longrightarrow> relabel occ lab c ! i \<le> lab ! i"
  by (cases c) (auto simp: relabel_def Let_def nth_list_update)

lemma foldl_relabel_ok:
  "labels_ok net occupancy lab \<Longrightarrow> set cs \<subseteq> set (conns net) \<Longrightarrow>
   labels_ok net occupancy (foldl (relabel (map truthy occupancy)) lab cs)"
  by (induction cs arbitrary: lab) (simp_all add: relabel_ok)

lemma foldl_relabel_le:
  "i < length lab \<Longrightarrow> foldl (relabel occ) lab cs ! i \<le> lab ! i"
proof (induction cs arbitrary: lab)
  case Nil
  then show ?case by simp
next
  case (Cons c cs)
  have "foldl (relabel occ) (relabel occ lab c) cs ! i \<le> relabel occ lab c ! i"
    using Cons.prems by (intro Cons.IH) simp
  then show ?case
    using relabel_le [OF Cons.prems, of occ c] by simp
qed

lemma sweep_ok:
  "labels_ok net occupancy lab \<Longrightarrow> labels_ok net occupancy (sweep net (map truthy occupancy) lab)"
  by (simp add: sweep_def foldl_relabel_ok)

lemma sweep_fixed_adjacent:
  assumes ok: "labels_ok net occupancy lab"
    and fixed: "sweep net (map truthy occupancy) lab = lab"
    and adj: "(a, b) \<in> adjacent net occupancy"
  shows "lab ! a = lab ! b"
proof -
  let ?occ = "map truthy occupancy"
  have len: "length lab = Np net"
    using ok by (simp add: labels_ok_def)
  have ab: "a < Np net" "b < Np net" "occupied occupancy a" "occupied occupancy b"
    using adj by (auto simp: adjacent_def)
  have le: "lab ! x \<le> lab ! y"
    if c: "(x, y) \<in> set (conns net) \<or> (y, x) \<in> set (conns net)"
      and xy: "x < Np net" "y < Np net" "occupied occupancy x" "occupied occupancy y" for x y
  proof -
    obtain c where cin: "c \<in> set (conns net)" and cxy: "c = (x, y) \<or> c = (y, x)"
      using c by blast
    obtain xs ys where split: "conns net = xs @ c # ys"
      using cin by (auto simp: in_set_conv_decomp)
    let ?l1 = "foldl (relabel ?occ) lab xs"
    let ?l2 = "relabel ?occ ?l1 c"
    have l1: "length ?l1 = length lab"
      by (simp add: foldl_relabel)
    have l2: "length ?l2 = length lab"
      by (simp add: l1)
    have "lab = foldl (relabel ?occ) ?l2 ys"
      using fixed by (simp add: sweep_def split)
    then have "lab ! x \<le> ?l2 ! x"
      using foldl_relabel_le [of x ?l2 ?occ ys] xy(1) len l2 by simp
    moreover have "?l2 ! x = min (?l1 ! x) (?l1 ! y)"
      using cxy xy len l1 by (auto simp: relabel_def Let_def occupied_def nth_list_update)
    moreover have "?l1 ! y \<le> lab ! y"
      using foldl_relabel_le [of y lab ?occ xs] xy(2) len by simp
    ultimately show ?thesis
      by linarith
  qed
  have "lab ! a \<le> lab ! b" and "lab ! b \<le> lab ! a"
    using le [of a b] le [of b a] adj ab by (auto simp: adjacent_def)
  then show ?thesis by simp
qed

lemma sweep_fixed_cluster:
  assumes "labels_ok net occupancy lab" and "sweep net (map truthy occupancy) lab = lab"
    and "q \<in> cluster net occupancy p"
  shows "lab ! p = lab ! q"
proof -
  have "(p, q) \<in> (adjacent net occupancy)\<^sup>*"
    using assms(3) by (simp add: cluster_def)
  then show ?thesis
    by (induction rule: rtrancl_induct) (auto dest: sweep_fixed_adjacent [OF assms(1,2)])
qed


lemma potential_le:
  "length ys = length xs \<Longrightarrow> \<forall>i < length xs. ys ! i \<le> xs ! i \<Longrightarrow> potential ys \<le> potential xs"
proof (induction ys xs rule: list_induct2)
  case Nil
  then show ?case by simp
next
  case (Cons y ys x xs)
  have "y \<le> x" and "\<forall>i < length xs. ys ! i \<le> xs ! i"
    using Cons.prems by (auto simp: nth_Cons split: nat.splits)
  then show ?case
    using Cons.IH by (simp add: potential_def)
qed

lemma potential_less:
  "length ys = length xs \<Longrightarrow> \<forall>i < length xs. ys ! i \<le> xs ! i \<Longrightarrow>
   \<forall>i < length xs. - 1 \<le> ys ! i \<Longrightarrow> ys \<noteq> xs \<Longrightarrow> potential ys < potential xs"
proof (induction ys xs rule: list_induct2)
  case Nil
  then show ?case by simp
next
  case (Cons y ys x xs)
  have h: "y \<le> x" "- 1 \<le> y"
    using Cons.prems(1,2) by (auto simp: nth_Cons split: nat.splits)
  have t: "\<forall>i < length xs. ys ! i \<le> xs ! i" "\<forall>i < length xs. - 1 \<le> ys ! i"
    using Cons.prems(1,2) by (auto simp: nth_Cons split: nat.splits)
  show ?case
  proof (cases "y = x")
    case True
    then have "ys \<noteq> xs"
      using Cons.prems(3) by simp
    then have "potential ys < potential xs"
      using Cons.IH t by simp
    then show ?thesis
      using True by (simp add: potential_def)
  next
    case False
    then have "nat (y + 1) < nat (x + 1)"
      using h by simp
    moreover have "potential ys \<le> potential xs"
      using potential_le [OF Cons.hyps t(1)] .
    moreover have "potential (y # ys) = nat (y + 1) + potential ys"
      and "potential (x # xs) = nat (x + 1) + potential xs"
      by (simp_all add: potential_def)
    ultimately show ?thesis
      by linarith
  qed
qed

lemma labels_ok_init:
  "labels_ok net occupancy
     (map (\<lambda>p. if p < length (map truthy occupancy) \<and> map truthy occupancy ! p
                then int p else - 1) [0..<Np net])"
  unfolding occupied_map_truthy by (simp add: labels_ok_def)

lemma labels_ok_lower: "labels_ok net occupancy lab \<Longrightarrow> i < length lab \<Longrightarrow> - 1 \<le> lab ! i"
  by (auto simp: labels_ok_def split: if_splits dest!: spec [of _ i])

lemma sweep_decreases:
  assumes "labels_ok net occupancy lab" and "sweep net (map truthy occupancy) lab \<noteq> lab"
  shows "potential (sweep net (map truthy occupancy) lab) < potential lab"
proof -
  let ?s = "sweep net (map truthy occupancy) lab"
  have ok: "labels_ok net occupancy ?s"
    using assms(1) by (rule sweep_ok)
  have len: "length ?s = length lab"
    using ok assms(1) by (simp add: labels_ok_def)
  show ?thesis
  proof (rule potential_less [OF len _ _ assms(2)])
    show "\<forall>i < length lab. ?s ! i \<le> lab ! i"
      by (simp add: sweep_def foldl_relabel_le)
    show "\<forall>i < length lab. - 1 \<le> ?s ! i"
      using labels_ok_lower [OF ok] len by simp
  qed
qed

lemma find_clusters2_fixed:
  "labels_ok net occupancy (find_clusters2 net occupancy) \<and>
   sweep net (map truthy occupancy) (find_clusters2 net occupancy) = find_clusters2 net occupancy"
  unfolding find_clusters2_def Let_def
proof (rule while_rule [where P = "labels_ok net occupancy" and r = "measure potential"])
  show "labels_ok net occupancy
          (map (\<lambda>p. if p < length (map truthy occupancy) \<and> map truthy occupancy ! p
                     then int p else - 1) [0..<Np net])"
    by (rule labels_ok_init)
qed (simp_all add: sweep_ok sweep_decreases)

lemma find_clusters2_contract:
  assumes "p < Np net"
  shows "length (find_clusters2 net occupancy) = Np net"
    and "\<not> occupied occupancy p \<Longrightarrow> find_clusters2 net occupancy ! p = - 1"
    and "occupied occupancy p \<Longrightarrow> 0 \<le> find_clusters2 net occupancy ! p"
    and "occupied occupancy p \<Longrightarrow> q < Np net \<Longrightarrow> occupied occupancy q \<Longrightarrow>
         (find_clusters2 net occupancy ! p = find_clusters2 net occupancy ! q) = (q \<in> cluster net occupancy p)"
proof -
  let ?lab = "find_clusters2 net occupancy"
  have ok: "labels_ok net occupancy ?lab"
    and fixed: "sweep net (map truthy occupancy) ?lab = ?lab"
    using find_clusters2_fixed by blast+
  show "length ?lab = Np net"
    using ok by (simp add: labels_ok_def)
  show "?lab ! p = - 1" if "\<not> occupied occupancy p"
    using ok assms that by (simp add: labels_ok_def)
  show "0 \<le> ?lab ! p" if "occupied occupancy p"
    using ok assms that by (simp add: labels_ok_def)
  show "(?lab ! p = ?lab ! q) = (q \<in> cluster net occupancy p)"
    if "occupied occupancy p" and "q < Np net" and "occupied occupancy q"
  proof
    assume eq: "?lab ! p = ?lab ! q"
    have "nat (?lab ! p) \<in> cluster net occupancy p" and "nat (?lab ! q) \<in> cluster net occupancy q"
      using ok assms that by (simp_all add: labels_ok_def)
    then show "q \<in> cluster net occupancy p"
      using eq cluster_sym cluster_trans by metis
  next
    assume "q \<in> cluster net occupancy p"
    then show "?lab ! p = ?lab ! q"
      by (rule sweep_fixed_cluster [OF ok fixed])
  qed
qed

lemma find_clusters2_label_class:
  assumes "p < Np net" and "occupied occupancy p"
  shows "{q. q < Np net \<and> find_clusters2 net occupancy ! q = find_clusters2 net occupancy ! p} = cluster net occupancy p"
proof (intro set_eqI iffI)
  fix q
  assume "q \<in> {q. q < Np net \<and> find_clusters2 net occupancy ! q = find_clusters2 net occupancy ! p}"
  then have q: "q < Np net" and eq: "find_clusters2 net occupancy ! q = find_clusters2 net occupancy ! p"
    by simp_all
  have "0 \<le> find_clusters2 net occupancy ! q"
    using eq find_clusters2_contract(3) [OF assms] by simp
  then have "occupied occupancy q"
    using find_clusters2_contract(2) [OF q, of occupancy] by fastforce
  then show "q \<in> cluster net occupancy p"
    using find_clusters2_contract(4) [OF assms q] eq by simp
next
  fix q
  assume c: "q \<in> cluster net occupancy p"
  show "q \<in> {q. q < Np net \<and> find_clusters2 net occupancy ! q = find_clusters2 net occupancy ! p}"
  proof (cases "q = p")
    case True
    then show ?thesis
      using assms by simp
  next
    case False
    then have "q < Np net" and "occupied occupancy q"
      using cluster_members_occupied [OF c] by simp_all
    then show ?thesis
      using find_clusters2_contract(4) [OF assms, of q] c by auto
  qed
qed

lemma find_clusters2_line: "find_clusters2 (line_net props) [Fin 1, Fin 1] = [0, 0]"
  by (simp add: find_clusters2_def line_net_def truthy_def sweep_def relabel_def numeral_2_eq_2 while_unfold)

lemma length_find_clusters2 [simp]: "length (find_clusters2 net occupancy) = Np net"
  using find_clusters2_fixed [of net occupancy] by (simp add: labels_ok_def)

lemma find_clusters2_unoccupied:
  "p < Np net \<Longrightarrow> \<not> occupied occupancy p \<Longrightarrow> find_clusters2 net occupancy ! p = - 1"
  by (rule find_clusters2_contract(2))

subsection \<open>Rows, columns and indexed assignment\<close>

lemma np_each_map:
  "\<forall>x \<in> set xs. f x = Inr (F x) \<Longrightarrow> np_each f xs = Inr (map F xs)"
  by (induction xs) simp_all

lemma foldl_map2_fmax:
  assumes "length r = n" and "\<forall>row \<in> set rs. length row = n"
  shows "length (foldl (map2 fmax) r rs) = n \<and>
         (\<forall>k < n. foldl (map2 fmax) r rs ! k = foldl fmax (r ! k) (map (\<lambda>row. row ! k) rs))"
  using assms
proof (induction rs arbitrary: r)
  case Nil
  then show ?case by simp
next
  case (Cons row rs)
  have l: "length (map2 fmax r row) = n"
    using Cons.prems by simp
  have "\<forall>k < n. map2 fmax r row ! k = fmax (r ! k) (row ! k)"
    using Cons.prems by simp
  then show ?case
    using Cons.IH [OF l] Cons.prems(2) by simp
qed

lemma foldl_update_pairs:
  "length (foldl (\<lambda>a (i, v). a[i := v]) xs (zip idx (map F idx))) = length xs \<and>
   foldl (\<lambda>a (i, v). a[i := v]) xs (zip idx (map F idx)) ! p =
     (if p \<in> set idx \<and> p < length xs then F p else xs ! p)"
proof (induction idx arbitrary: xs)
  case Nil
  then show ?case by simp
next
  case (Cons i idx)
  have "xs[i := F i] ! p = (if p = i \<and> p < length xs then F p else xs ! p)"
    by (cases "i < length xs") (auto simp: nth_list_update list_update_beyond)
  then show ?case
    using Cons.IH [of "xs[i := F i]"] by auto
qed

lemma np_put_map:
  assumes "\<forall>i \<in> set idx. i < length xs"
  shows "np_put xs idx (map F idx) =
         Inr (map (\<lambda>p. if p \<in> set idx then F p else xs ! p) [0..<length xs])"
proof -
  let ?ys = "foldl (\<lambda>a (i, v). a[i := v]) xs (zip idx (map F idx))"
  have "?ys = map (\<lambda>p. if p \<in> set idx then F p else xs ! p) [0..<length xs]"
    using foldl_update_pairs [of xs idx F] by (intro nth_equalityI) auto
  then show ?thesis
    using assms by (simp add: np_put_def)
qed

lemma foldl_update_any:
  "length (foldl (\<lambda>a (i, v). a[i := v]) xs ps) = length xs \<and>
   (p \<notin> fst ` set ps \<longrightarrow> foldl (\<lambda>a (i, v). a[i := v]) xs ps ! p = xs ! p)"
  by (induction ps arbitrary: xs) (auto simp: nth_list_update)

lemma foldl_update_const:
  "length (foldl (\<lambda>a i. a[i := v]) xs idx) = length xs \<and>
   (p \<notin> set idx \<longrightarrow> foldl (\<lambda>a i. a[i := v]) xs idx ! p = xs ! p)"
  by (induction idx arbitrary: xs) (auto simp: nth_list_update)

lemma np_put_frame:
  assumes "np_put xs idx vals = Inr ys"
  shows "length ys = length xs \<and> (\<forall>p. p \<notin> set idx \<longrightarrow> ys ! p = xs ! p)"
proof -
  have "ys = foldl (\<lambda>a (i, v). a[i := v]) xs (zip idx vals) \<or>
        ys = foldl (\<lambda>a i. a[i := hd vals]) xs idx"
    using assms by (auto simp: np_put_def split: if_splits)
  moreover have "p \<notin> set idx \<Longrightarrow> p \<notin> fst ` set (zip idx vals)" for p
    by (auto dest: set_zip_leftD)
  ultimately show ?thesis
    using foldl_update_any [of xs "zip idx vals"] foldl_update_const [of "hd vals" xs idx]
    by (metis (no_types, lifting))
qed

subsection \<open>One pass of the static-pressure loop\<close>

lemma py_bind_lift:
  "py_bind (py_lift r) f h = (case r of Inl e \<Rightarrow> (Inl e, h) | Inr x \<Rightarrow> f x h)"
  by (cases r) simp_all

lemma set_cluster_members:
  "set (cluster_members clusters c) = {p. p < length clusters \<and> clusters ! p = c}"
  by (auto simp: cluster_members_def)

lemma cluster_pressure_frame:
  assumes "cluster_pressure net g clusters rho sp c h = (Inr u, h')"
  shows "\<exists>ys. h' = h[sp := ys] \<and> length ys = length (h ! sp)
           \<and> (\<forall>p. \<not> (p < length clusters \<and> clusters ! p = c) \<longrightarrow> ys ! p = h ! sp ! p)"
proof -
  obtain vals new where "np_put (h ! sp) (cluster_members clusters c) vals = Inr new"
      and "h' = h[sp := new]"
    using assms
    by (auto simp: cluster_pressure_def Let_def py_bind_lift split: sum.splits)
  then show ?thesis
    using np_put_frame [of "h ! sp" "cluster_members clusters c" vals new]
    by (auto simp: set_cluster_members)
qed

lemma cluster_pressure_run:
  assumes c: "c \<in> set clusters"
    and co: "length clusters \<le> length (coords net)" "\<forall>row \<in> set (coords net). length row = 3"
    and g: "length g = 3" "filter (\<lambda>j. fgt (g ! j) (Fin 0)) [0..<length g] = [k]" "k < 3"
    and rho: "rho \<noteq> sp" "length clusters \<le> length (h ! rho)"
    and sp: "sp < length h" "length clusters \<le> length (h ! sp)"
  shows "cluster_pressure net g clusters rho sp c h =
         (Inr (),
          h[sp := map (\<lambda>p. if p < length clusters \<and> clusters ! p = c
                            then hydrostatic net g k clusters (h ! rho) p else h ! sp ! p)
                      [0..<length (h ! sp)]])"
proof -
  let ?Ps = "cluster_members clusters c"
  let ?rows = "map (\<lambda>p. coords net ! p) ?Ps"
  let ?tops = "foldl (map2 fmax) (hd ?rows) (tl ?rows)"
  let ?h = "map (\<lambda>row. map2 fsub ?tops row) ?rows"
  let ?P = "map (\<lambda>row. map2 fmul g row) ?h"
  let ?sel = "map (\<lambda>row. [row ! k]) ?P"
  let ?F = "\<lambda>p. hydrostatic net g k clusters (h ! rho) p"
  have Ps: "\<forall>p \<in> set ?Ps. p < length clusters \<and> clusters ! p = c"
    by (simp add: set_cluster_members)
  obtain p0 where "p0 < length clusters" and "clusters ! p0 = c"
    using c by (auto simp: in_set_conv_nth)
  then have "p0 \<in> set ?Ps"
    by (simp add: set_cluster_members)
  then have ne: "?Ps \<noteq> []"
    by auto
  have rowlen: "\<forall>row \<in> set ?rows. length row = 3"
    using Ps co by auto
  have take: "np_take (coords net) ?Ps = Inr ?rows"
    using Ps co(1) by (intro np_take_in_range) auto
  have amax: "amax0 ?rows = Inr ?tops"
    using ne by (cases ?rows) (simp_all add: amax0_def)
  obtain q qs where qq: "?Ps = q # qs"
    using ne by (cases ?Ps) auto
  have "length (hd ?rows) = 3" and "\<forall>row \<in> set (tl ?rows). length row = 3"
    using rowlen by (simp_all add: qq)
  then have tops: "length ?tops = 3"
      "\<forall>j < 3. ?tops ! j = foldl fmax (hd ?rows ! j) (map (\<lambda>row. row ! j) (tl ?rows))"
    using foldl_map2_fmax [of "hd ?rows" 3 "tl ?rows"] by simp_all
  have topk: "?tops ! k = cluster_top net clusters c k"
    using tops(2) g(3) by (simp add: cluster_top_def qq o_def)
  have sub: "np_each (\<lambda>row. np_binop fsub ?tops row) ?rows = Inr ?h"
    using rowlen tops(1) by (intro np_each_map) (simp add: np_binop_same_length)
  have mul: "np_each (\<lambda>row. np_binop fmul g row) ?h = Inr ?P"
    using rowlen tops(1) g(1) by (intro np_each_map) (simp add: np_binop_same_length)
  have sel: "np_each (\<lambda>row. np_take row [k]) ?P = Inr ?sel"
    using rowlen tops(1) g(1,3) by (intro np_each_map) (simp add: np_take_def)
  have flat: "concat ?sel =
              map (\<lambda>p. fmul (g ! k) (fsub (cluster_top net clusters c k) (coords net ! p ! k))) ?Ps"
  proof -
    have "concat ?sel = map (\<lambda>row. row ! k) ?P"
      by (simp add: o_def concat_map_singleton)
    also have "\<dots> = map (\<lambda>p. fmul (g ! k) (fsub (?tops ! k) (coords net ! p ! k))) ?Ps"
      using rowlen tops(1) g(1,3) by (simp add: o_def)
    finally show ?thesis
      by (simp add: topk)
  qed
  have rhosel: "np_take (h ! rho) ?Ps = Inr (map (\<lambda>p. h ! rho ! p) ?Ps)"
    using Ps rho(2) by (intro np_take_in_range) auto
  have vals: "np_binop fmul (concat ?sel) (map (\<lambda>p. h ! rho ! p) ?Ps) = Inr (map ?F ?Ps)"
  proof -
    have "map ?F ?Ps =
          map (\<lambda>p. fmul (fmul (g ! k) (fsub (cluster_top net clusters c k) (coords net ! p ! k)))
                         (h ! rho ! p)) ?Ps"
      using Ps by (simp add: hydrostatic_def)
    then show ?thesis
      unfolding flat
      by (simp add: np_binop_same_length zip_map_map zip_same_conv_map o_def)
  qed
  have put: "np_put (h ! sp) ?Ps (map ?F ?Ps) =
             Inr (map (\<lambda>p. if p < length clusters \<and> clusters ! p = c then ?F p else h ! sp ! p)
                      [0..<length (h ! sp)])"
  proof -
    have "\<forall>i \<in> set ?Ps. i < length (h ! sp)"
      using Ps sp(2) by auto
    then show ?thesis
      by (simp add: np_put_map set_cluster_members)
  qed
  show ?thesis
    unfolding cluster_pressure_def Let_def
    by (simp only: take amax sub mul g(2) sel rhosel vals put py_bind_lift_Inr py_bind_deref
        assign_def)
qed

subsection \<open>The static-pressure loop\<close>

lemma static_pressure_loop_frame:
  assumes "static_pressure_loop net g clusters rho sp cs h = (Inr u, h')" and "sp < length h"
  shows "\<exists>ys. h' = h[sp := ys] \<and> length ys = length (h ! sp)
           \<and> (\<forall>p. \<not> (p < length clusters \<and> clusters ! p \<in> set cs) \<longrightarrow> ys ! p = h ! sp ! p)"
  using assms
proof (induction cs arbitrary: h)
  case Nil
  then have "h' = h[sp := h ! sp]" by simp
  then show ?case
    by (intro exI [of _ "h ! sp"]) simp
next
  case (Cons c cs)
  obtain u1 h1 where step: "cluster_pressure net g clusters rho sp c h = (Inr u1, h1)"
      and rest: "static_pressure_loop net g clusters rho sp cs h1 = (Inr u, h')"
    using Cons.prems(1) by (auto simp: py_bind_def split: prod.splits sum.splits)
  obtain y1 where y1: "h1 = h[sp := y1]" "length y1 = length (h ! sp)"
      "\<forall>p. \<not> (p < length clusters \<and> clusters ! p = c) \<longrightarrow> y1 ! p = h ! sp ! p"
    using cluster_pressure_frame [OF step] by blast
  have sp1: "sp < length h1" "h1 ! sp = y1"
    using y1(1) Cons.prems(2) by simp_all
  obtain ys where ys: "h' = h1[sp := ys]" "length ys = length (h1 ! sp)"
      "\<forall>p. \<not> (p < length clusters \<and> clusters ! p \<in> set cs) \<longrightarrow> ys ! p = h1 ! sp ! p"
    using Cons.IH [OF rest sp1(1)] by blast
  have "h' = h[sp := ys]"
    using ys(1) y1(1) by simp
  moreover have "length ys = length (h ! sp)"
    using ys(2) sp1(2) y1(2) by simp
  moreover have "\<forall>p. \<not> (p < length clusters \<and> clusters ! p \<in> set (c # cs)) \<longrightarrow>
                   ys ! p = h ! sp ! p"
    using ys(3) y1(3) sp1(2) by auto
  ultimately show ?case by blast
qed

lemma static_pressure_loop_run:
  assumes cs: "set cs \<subseteq> set clusters"
    and co: "length clusters \<le> length (coords net)" "\<forall>row \<in> set (coords net). length row = 3"
    and g: "length g = 3" "filter (\<lambda>j. fgt (g ! j) (Fin 0)) [0..<length g] = [k]" "k < 3"
    and rho: "rho \<noteq> sp" "length clusters \<le> length (h ! rho)"
    and sp: "sp < length h" "length clusters \<le> length (h ! sp)"
  shows "static_pressure_loop net g clusters rho sp cs h =
         (Inr (),
          h[sp := map (\<lambda>p. if p < length clusters \<and> clusters ! p \<in> set cs
                            then hydrostatic net g k clusters (h ! rho) p else h ! sp ! p)
                      [0..<length (h ! sp)]])"
  using cs rho(2) sp
proof (induction cs arbitrary: h)
  case Nil
  have "map (\<lambda>p. h ! sp ! p) [0..<length (h ! sp)] = h ! sp"
    by (simp add: map_nth)
  then show ?case by simp
next
  case (Cons c cs)
  let ?y1 = "map (\<lambda>p. if p < length clusters \<and> clusters ! p = c
                       then hydrostatic net g k clusters (h ! rho) p else h ! sp ! p)
                 [0..<length (h ! sp)]"
  let ?h1 = "h[sp := ?y1]"
  have step: "cluster_pressure net g clusters rho sp c h = (Inr (), ?h1)"
    using Cons.prems by (intro cluster_pressure_run co g rho(1)) simp_all
  have h1: "?h1 ! rho = h ! rho" "?h1 ! sp = ?y1" "length ?h1 = length h"
    using rho(1) Cons.prems(3) by simp_all
  have rest: "static_pressure_loop net g clusters rho sp cs ?h1 =
         (Inr (),
          ?h1[sp := map (\<lambda>p. if p < length clusters \<and> clusters ! p \<in> set cs
                              then hydrostatic net g k clusters (?h1 ! rho) p else ?h1 ! sp ! p)
                        [0..<length (?h1 ! sp)]])"
    using Cons.prems by (intro Cons.IH) (simp_all add: h1)
  have "map (\<lambda>p. if p < length clusters \<and> clusters ! p \<in> set cs
                  then hydrostatic net g k clusters (?h1 ! rho) p else ?h1 ! sp ! p)
            [0..<length (?h1 ! sp)] =
        map (\<lambda>p. if p < length clusters \<and> clusters ! p \<in> set (c # cs)
                  then hydrostatic net g k clusters (h ! rho) p else h ! sp ! p)
            [0..<length (h ! sp)]"
    unfolding h1 by auto
  then have "static_pressure_loop net g clusters rho sp cs ?h1 =
         (Inr (),
          h[sp := map (\<lambda>p. if p < length clusters \<and> clusters ! p \<in> set (c # cs)
                            then hydrostatic net g k clusters (h ! rho) p else h ! sp ! p)
                      [0..<length (h ! sp)]])"
    using rest by simp
  then show ?case
    using step by (simp add: py_bind_def)
qed

lemma static_pressure_unfold:
  assumes "ph_props ph pore_density = Some rho" and "ph_props ph pore_occupancy = Some occ"
    and "occ < length h"
  shows "static_pressure net phys ph pore_density pore_occupancy g h =
         (case static_pressure_loop net g (find_clusters2 net (h ! occ)) rho (length h)
                 (filter (\<lambda>c. c \<noteq> - 1) (remdups (sort (find_clusters2 net (h ! occ)))))
                 (h @ [replicate (Np net) (Fin 0)]) of
            (Inl e, h') \<Rightarrow> (Inl e, h')
          | (Inr u, h') \<Rightarrow> (Inr (length h), h'))"
  using assms
  by (simp add: static_pressure_def Let_def nth_append py_bind_def split: prod.splits sum.splits)

subsection \<open>Static pressure on a well-formed input\<close>

lemma static_pressure_run:
  assumes keys: "ph_props ph pore_density = Some rho" "ph_props ph pore_occupancy = Some occ"
    and a: "rho < length h" "occ < length h"
    and co: "Np net \<le> length (coords net)" "\<forall>row \<in> set (coords net). length row = 3"
    and g: "length g = 3" "filter (\<lambda>j. fgt (g ! j) (Fin 0)) [0..<length g] = [k]" "k < 3"
    and rho: "Np net \<le> length (h ! rho)"
    and cl: "clusters = find_clusters2 net (h ! occ)"
  shows "static_pressure net phys ph pore_density pore_occupancy g h =
         (Inr (length h),
          h @ [map (\<lambda>p. if clusters ! p \<noteq> - 1 then hydrostatic net g k clusters (h ! rho) p
                          else Fin 0) [0..<Np net]])"
proof -
  let ?cs = "filter (\<lambda>c. c \<noteq> - 1) (remdups (sort clusters))"
  let ?h0 = "h @ [replicate (Np net) (Fin 0)]"
  have len: "length clusters = Np net"
    by (simp add: cl)
  have h0: "?h0 ! rho = h ! rho" "?h0 ! length h = replicate (Np net) (Fin 0)"
    using a(1) by (simp_all add: nth_append)
  have loop: "static_pressure_loop net g clusters rho (length h) ?cs ?h0 =
         (Inr (),
          ?h0[length h := map (\<lambda>p. if p < length clusters \<and> clusters ! p \<in> set ?cs
                            then hydrostatic net g k clusters (?h0 ! rho) p
                            else ?h0 ! length h ! p)
                      [0..<length (?h0 ! length h)]])"
    using a(1) co g rho by (intro static_pressure_loop_run) (auto simp: len h0)
  have "map (\<lambda>p. if p < length clusters \<and> clusters ! p \<in> set ?cs
                  then hydrostatic net g k clusters (?h0 ! rho) p else ?h0 ! length h ! p)
            [0..<length (?h0 ! length h)] =
        map (\<lambda>p. if clusters ! p \<noteq> - 1 then hydrostatic net g k clusters (h ! rho) p
                  else Fin 0) [0..<Np net]"
    unfolding h0 by (auto simp: len)
  then have "static_pressure_loop net g clusters rho (length h) ?cs ?h0 =
         (Inr (),
          h @ [map (\<lambda>p. if clusters ! p \<noteq> - 1 then hydrostatic net g k clusters (h ! rho) p
                          else Fin 0) [0..<Np net]])"
    using loop by simp
  then show ?thesis
    using static_pressure_unfold [OF keys a(2), of net phys g] by (simp add: cl)
qed

lemma positive_component:
  assumes "length gv = 3" and "k < 3" and "0 < gv ! k" and "\<forall>j < 3. j \<noteq> k \<longrightarrow> gv ! j \<le> 0"
  shows "filter (\<lambda>j. fgt (map Fin gv ! j) (Fin 0)) [0..<length (map Fin gv)] = [k]"
proof -
  have u: "[0..<3] = [0, 1, 2]"
    by (simp add: upt_rec)
  have f: "fgt (map Fin gv ! j) (Fin 0) = (0 < gv ! j)" if "j < 3" for j
    using that assms(1) by simp
  have "k = 0 \<or> k = 1 \<or> k = 2"
    using assms(2) by auto
  moreover have "gv ! 0 \<le> 0" if "k \<noteq> 0"
    using that assms(4) by simp
  moreover have "gv ! 1 \<le> 0" if "k \<noteq> 1"
    using that assms(4) by simp
  moreover have "gv ! 2 \<le> 0" if "k \<noteq> 2"
    using that assms(4) by simp
  ultimately show ?thesis
    using assms(3) by (auto simp: assms(1) u f not_less)
qed

lemma cluster_top_Fin:
  assumes "coords net = map (map Fin) xyz" and "length clusters \<le> length xyz"
    and "\<forall>row \<in> set xyz. k < length row" and "c \<in> set clusters"
  shows "cluster_top net clusters c k =
         Fin (Max ((\<lambda>q. xyz ! q ! k) ` {q. q < length clusters \<and> clusters ! q = c}))"
proof -
  let ?Ps = "cluster_members clusters c"
  have Ps: "\<forall>p \<in> set ?Ps. p < length xyz \<and> k < length (xyz ! p)"
    using assms(2,3) by (auto simp: set_cluster_members)
  then have m: "map (\<lambda>p. coords net ! p ! k) ?Ps = map Fin (map (\<lambda>p. xyz ! p ! k) ?Ps)"
    by (simp add: assms(1))
  obtain p0 where "p0 < length clusters" and "clusters ! p0 = c"
    using assms(4) by (auto simp: in_set_conv_nth)
  then have "p0 \<in> set ?Ps"
    by (simp add: set_cluster_members)
  then obtain q qs where qq: "?Ps = q # qs"
    by (cases ?Ps) auto
  have "cluster_top net clusters c k = Fin (Max (set (map (\<lambda>p. xyz ! p ! k) ?Ps)))"
    unfolding cluster_top_def m
    using foldl_fmax_Fin [of "xyz ! q ! k" "map (\<lambda>p. xyz ! p ! k) qs"] by (simp add: qq)
  then show ?thesis
    by (simp add: set_cluster_members)
qed

subsection \<open>Static pressure on the example network\<close>

lemma occupied_phase_keys:
  "ph_props occupied_phase ''pore.density'' = Some 0"
  "ph_props occupied_phase ''pore.occupancy'' = Some 1"
  by (simp_all add: occupied_phase_def line_phase_def)

lemma line_net_fields:
  "Np (line_net props) = 2"
  "coords (line_net props) = [[Fin 0, Fin 0, Fin 0], [Fin 0, Fin 0, Fin 1]]"
  by (simp_all add: line_net_def)

lemma static_pressure_line:
  "static_pressure (line_net Map.empty) (phys_obj Map.empty) occupied_phase
     ''pore.density'' ''pore.occupancy'' [Fin 0, Fin 0, Fin (981 / 100)]
     [[Fin 1000, Fin 1000], [Fin 1, Fin 1]] =
   (Inr 2, [[Fin 1000, Fin 1000], [Fin 1, Fin 1], [Fin 9810, Fin 0]])"
proof -
  have u: "[0..<3] = [0, 1, 2]" "[0..<2] = [0, 1]"
    by (simp_all add: upt_rec)
  have m: "cluster_members [0, 0] 0 = [0, 1]"
    by (simp add: cluster_members_def u)
  show ?thesis
    using static_pressure_run [OF occupied_phase_keys, where net = "line_net Map.empty"
        and h = "[[Fin 1000, Fin 1000], [Fin 1, Fin 1]]" and g = "[Fin 0, Fin 0, Fin (981 / 100)]"
        and k = 2 and clusters = "[0, 0]" and phys = "phys_obj Map.empty"]
    by (simp add: line_net_fields find_clusters2_line u hydrostatic_def cluster_top_def m fsub_def)
qed

lemma cluster_line:
  assumes "p < 2"
  shows "cluster (line_net props) [Fin 1, Fin 1] p = {0, 1}"
proof -
  have o: "occupied [Fin 1, Fin 1] p"
    using assms by (auto simp: occupied_def truthy_def less_2_cases_iff)
  have "cluster (line_net props) [Fin 1, Fin 1] p =
        {q. q < Np (line_net props) \<and>
            find_clusters2 (line_net props) [Fin 1, Fin 1] ! q =
            find_clusters2 (line_net props) [Fin 1, Fin 1] ! p}"
    using assms o by (intro find_clusters2_label_class [symmetric]) (simp add: line_net_fields)
  also have "\<dots> = {0, 1}"
    using assms by (auto simp: line_net_fields find_clusters2_line less_2_cases_iff)
  finally show ?thesis .
qed

subsection \<open>What the other models keep\<close>

lemma zero_inf_not_infinite: "zero_inf x \<noteq> PInf \<and> zero_inf x \<noteq> NInf"
  by (cases x) (simp_all add: zero_inf_def)

lemma interpolate_data_extends:
  "interpolate_data ph dat h = (r, h1) \<Longrightarrow> \<exists>ext. h1 = h @ ext"
  by (auto simp: interpolate_data_def py_bind_lift split: sum.splits)

lemma get_key_props_extends:
  assumes "get_key_props ph diameter surface_tension contact_angle h = (r, h1)"
  shows "\<exists>ext. h1 = h @ ext"
proof -
  define S where "S = (if key_entity surface_tension = ''pore'' \<and> key_entity diameter = ''throat''
         then py_bind (getitem (ph_props ph) surface_tension) (\<lambda>sigma. interpolate_data ph sigma)
         else getitem (ph_props ph) surface_tension)"
  define T where "T = (if key_entity contact_angle = ''pore'' \<and> key_entity diameter = ''throat''
         then py_bind (getitem (ph_props ph) contact_angle) (\<lambda>theta. interpolate_data ph theta)
         else getitem (ph_props ph) contact_angle)"
  have ext: "\<exists>ext. h'' = h' @ ext"
    if "(if c then py_bind (getitem d k) (\<lambda>x. interpolate_data ph x) else getitem d k) h' =
        (r', h'')" for c d k h' r' h''
    using that interpolate_data_extends [of ph _ h' r' h'']
    by (cases "d k") (auto simp: getitem_def split: if_splits)
  have S: "\<exists>ext. h'' = h' @ ext" if "S h' = (r', h'')" for h' r' h''
    using that unfolding S_def by (rule ext)
  have T: "\<exists>ext. h'' = h' @ ext" if "T h' = (r', h'')" for h' r' h''
    using that unfolding T_def by (rule ext)
  have "get_key_props ph diameter surface_tension contact_angle =
        py_bind S (\<lambda>sigma. py_bind T (\<lambda>theta. py_return (key_entity diameter, sigma, theta)))"
    by (simp add: get_key_props_def Let_def S_def T_def)
  then have "py_bind S (\<lambda>sigma. py_bind T (\<lambda>theta.
               py_return (key_entity diameter, sigma, theta))) h = (r, h1)"
    using assms by simp
  then show ?thesis
    using S T
    by (auto simp: py_bind_def split: prod.splits sum.splits) (metis append.assoc)+
qed


lemma washburn_keeps_and_slices:
  assumes "get_key_props ph diameter surface_tension contact_angle h =
           (Inr (entity, sa, ta), h1)"
    and "net_props net diameter = Some d" and "d < length h1" and "h1 ! d \<noteq> []"
    and "sa < length h1" and "ta < length h1"
    and "length (h1 ! sa) = length (h1 ! d)" and "length (h1 ! ta) = length (h1 ! d)"
    and "\<forall>i \<in> set (scope_indices phys ph entity). i < length (h1 ! d)"
  shows "\<exists>a h'. washburn phys ph net surface_tension contact_angle diameter h = (Inr a, h')
           \<and> (\<forall>p < length h. h' ! p = h ! p)
           \<and> length (h' ! a) = length (scope_indices phys ph entity)
           \<and> (\<forall>x \<in> set (h' ! a). x \<noteq> PInf \<and> x \<noteq> NInf)"
proof -
  obtain ext where "h1 = h @ ext"
    using get_key_props_extends [OF assms(1)] by blast
  then show ?thesis
    by (auto simp: washburn_run [OF assms] nth_append zero_inf_not_infinite)
qed

lemma purcell_keeps:
  assumes "get_key_props ph diameter surface_tension contact_angle h =
           (Inr (entity, sa, ta), h1)"
    and "net_props net diameter = Some d" and "d < length h1" and "h1 ! d \<noteq> []"
    and "sa < length h1" and "ta < length h1"
    and "length (h1 ! sa) = length (h1 ! d)" and "length (h1 ! ta) = length (h1 ! d)"
    and "\<forall>i \<in> set (scope_indices phys ph entity). i < length (h1 ! d)"
  shows "\<forall>p < length h. snd (purcell phys ph net R surface_tension contact_angle diameter h) ! p
           = h ! p"
proof -
  obtain ext where "h1 = h @ ext"
    using get_key_props_extends [OF assms(1)] by blast
  then show ?thesis
    by (auto simp: purcell_run [OF assms] nth_append)
qed

lemma cuboid_slices_and_clamps:
  assumes "get_key_props ph diameter surface_tension contact_angle h =
           (Inr (entity, sa, ta), h1)"
    and "net_props net diameter = Some d" and "d < length h1" and "h1 ! d \<noteq> []"
    and "sa < length h1" and "ta < length h1" and "ta \<noteq> sa" and "ta \<noteq> d"
    and "length (h1 ! sa) = length (h1 ! d)" and "length (h1 ! ta) = length (h1 ! d)"
    and "\<forall>i \<in> set (scope_indices phys ph entity). i < length (h1 ! d)"
  shows "\<exists>a h'. cuboid phys ph net surface_tension contact_angle diameter h = (Inr a, h')
           \<and> h' ! ta = map (\<lambda>t. fmul t (Fin (2 * pi / 360))) (h1 ! ta)
           \<and> length (h' ! a) = length (scope_indices phys ph entity)
           \<and> (\<forall>x \<in> set (h' ! a). x \<noteq> PInf \<and> x \<noteq> NInf)"
  using assms(6)
  by (auto simp: cuboid_run [OF assms refl] nth_append zero_inf_not_infinite)

lemma kelvin_keeps:
  assumes "ph_props ph temperature = Some T" and "ph_props ph vapor_pressure = Some P0"
    and "ph_props ph molecular_weight = Some M" and "ph_props ph density = Some rho"
    and "ph_props ph surface_tension = Some gamma"
    and "net_props net diameter = Some d" and "d < length h" and "h ! d \<noteq> []"
    and "T < length h" and "P0 < length h" and "M < length h" and "rho < length h"
    and "gamma < length h"
    and "length (h ! T) = length (h ! d)" and "length (h ! P0) = length (h ! d)"
    and "length (h ! M) = length (h ! d)" and "length (h ! rho) = length (h ! d)"
    and "length (h ! gamma) = length (h ! d)"
  shows "\<exists>a h'. kelvin phys ph net diameter temperature vapor_pressure molecular_weight density
                  surface_tension h = (Inr a, h')
           \<and> (\<forall>p < length h. h' ! p = h ! p)
           \<and> length (h' ! a) = length (h ! d)"
  by (auto simp: kelvin_run [OF assms] nth_append)

lemma from_throat_loop_frame:
  "from_throat_loop phys net cp op val is h = (r, h') \<Longrightarrow>
   length h' = length h \<and> (\<forall>p. p \<noteq> val \<longrightarrow> h' ! p = h ! p)"
proof (induction "is" arbitrary: h)
  case Nil
  then show ?case by simp
next
  case (Cons i rest)
  have "h' = h \<or>
        (\<exists>v. from_throat_loop phys net cp op val rest (h[val := v]) = (r, h'))"
    using Cons.prems
    by (auto simp: py_bind_lift getitem_def split: option.splits sum.splits)
  then show ?case
    using Cons.IH by (elim disjE exE) (simp, fastforce)
qed

lemma from_throat_keeps:
  "from_throat phys ph net cp op h = (r, h') \<Longrightarrow> \<forall>p < length h. h' ! p = h ! p"
  unfolding from_throat_unfold
  by (auto split: prod.splits sum.splits dest!: from_throat_loop_frame simp: nth_append)

lemma static_pressure_keeps:
  assumes "ph_props ph pore_density = Some rho" and "ph_props ph pore_occupancy = Some occ"
    and "occ < length h"
    and "static_pressure net phys ph pore_density pore_occupancy g h = (Inr a, h')"
  shows "\<forall>p < length h. h' ! p = h ! p"
proof -
  obtain u where "static_pressure_loop net g (find_clusters2 net (h ! occ)) rho (length h)
      (filter (\<lambda>c. c \<noteq> - 1) (remdups (sort (find_clusters2 net (h ! occ)))))
      (h @ [replicate (Np net) (Fin 0)]) = (Inr u, h')"
    using assms(4) unfolding static_pressure_unfold [OF assms(1-3)]
    by (auto split: prod.splits sum.splits)
  then obtain ys where "h' = (h @ [replicate (Np net) (Fin 0)])[length h := ys]"
    using static_pressure_loop_frame by fastforce
  then show ?thesis
    by (simp add: nth_append)
qed

section \<open>The claims\<close>

subsection \<open>C1: the Purcell formula\<close>

text \<open>
  C1 states that \<open>purcell\<close> returns \<open>(-2\<sigma>/r) cos(\<theta>_rad - \<alpha>_rad) / (1 + (R/r)(1 - cos \<alpha>_rad))\<close>
  with \<open>\<alpha> = \<theta> - 180 + arcsin(sin(\<theta>_rad) / (1 + r/R))\<close>: the arcsine of the sine of the
  contact angle, divided by \<open>1 + r/R\<close>. The source closes the bracket of the sine after the
  quotient and computes \<open>arcsin(sin(\<theta>_rad / (1 + r/R)))\<close> (see \<open>purcell_alpha_elem\<close> and
  \<open>purcell_alpha_elem_finite\<close>). The two differ: for a throat of diameter 2 between two
  pores of surface tension 1 and contact angle 180 degrees, with toroid radius 1, the
  formula of the claim gives 2, and \<open>purcell\<close> returns
  \<open>2 cos(\<pi>\<^sup>2/360) / (2 - cos(\<pi>\<^sup>2/360))\<close>, which is smaller.
\<close>

theorem purcell_takes_sine_of_quotient:
  "purcell (phys_obj Map.empty) pore_phase throat_net (Fin 1)
     ''pore.surface_tension'' ''pore.contact_angle'' ''throat.diameter''
     [[Fin 2], [Fin 1, Fin 1], [Fin 180, Fin 180]] =
   (Inr 6,
    [[Fin 2], [Fin 1, Fin 1], [Fin 180, Fin 180], [Fin 1], [Fin 180], [Fin 1],
     [Fin (2 * cos (pi * pi / 360) / (2 - cos (pi * pi / 360)))]])
   \<and> 2 * cos (pi * pi / 360) / (2 - cos (pi * pi / 360)) < purcell_claimed 1 180 1 1"
proof
  show "purcell (phys_obj Map.empty) pore_phase throat_net (Fin 1)
     ''pore.surface_tension'' ''pore.contact_angle'' ''throat.diameter''
     [[Fin 2], [Fin 1, Fin 1], [Fin 180, Fin 180]] =
   (Inr 6,
    [[Fin 2], [Fin 1, Fin 1], [Fin 180, Fin 180], [Fin 1], [Fin 180], [Fin 1],
     [Fin (2 * cos (pi * pi / 360) / (2 - cos (pi * pi / 360)))]])"
    using purcell_line [where dm = 2 and s = 1 and t = 180 and R = "Fin 1"] by (simp add: purcell_elem_at_180)
  have "0 < 2 - cos (pi * pi / 360)"
    using cos_le_one [of "pi * pi / 360"] by linarith
  then have "2 * cos (pi * pi / 360) / (2 - cos (pi * pi / 360)) < 2"
    using cos_pi_sq_less_one by (simp add: field_simps)
  then show "2 * cos (pi * pi / 360) / (2 - cos (pi * pi / 360)) < purcell_claimed 1 180 1 1"
    by (simp add: purcell_claimed_at_180)
qed

subsection \<open>C2: infinite results\<close>

text \<open>
  C2 states that \<open>washburn\<close>, \<open>purcell\<close> and \<open>cuboid\<close> all replace the results of infinite
  magnitude by 0. \<open>washburn\<close> and \<open>cuboid\<close> end with \<open>zero_infinite\<close>; \<open>purcell\<close> has no such
  step and returns the slice as computed. With contact angle 0, surface tension 1, throat
  diameter 4 and toroid radius -1 the denominator \<open>1 + R/r (1 - cos \<alpha>_rad)\<close> is
  \<open>1 - (1/2) 2 = 0\<close>, and \<open>purcell\<close> returns \<open>+\<infinity>\<close> for the throat.
\<close>

theorem purcell_returns_infinity:
  "purcell (phys_obj Map.empty) pore_phase throat_net (Fin (- 1))
     ''pore.surface_tension'' ''pore.contact_angle'' ''throat.diameter''
     [[Fin 4], [Fin 1, Fin 1], [Fin 0, Fin 0]] =
   (Inr 6, [[Fin 4], [Fin 1, Fin 1], [Fin 0, Fin 0], [Fin 1], [Fin 0], [Fin 2], [PInf]])"
  using purcell_line [where dm = 4 and s = 1 and t = 0 and R = "Fin (- 1)"] by (simp add: purcell_elem_infinite)

subsection \<open>C3: the stored arrays\<close>


subsection \<open>C4: the domain of the arcsine\<close>

text \<open>
  C4 states that \<open>purcell\<close> raises a geometry error when \<open>|sin(\<theta>) / (1 + r/R)| > 1\<close>. The
  module defines no such error and \<open>purcell\<close> makes no check of the domain. With contact
  angle 90 degrees, throat radius 1 and toroid radius -2 the quotient is 2, and \<open>purcell\<close>
  returns the finite value -2 for the throat, without any error.
\<close>

theorem purcell_out_of_domain_returns:
  "1 < \<bar>sin (90 * (pi / 180)) / (1 + 1 / (- 2))\<bar>
   \<and> purcell (phys_obj Map.empty) pore_phase throat_net (Fin (- 2))
       ''pore.surface_tension'' ''pore.contact_angle'' ''throat.diameter''
       [[Fin 2], [Fin 1, Fin 1], [Fin 90, Fin 90]] =
     (Inr 6, [[Fin 2], [Fin 1, Fin 1], [Fin 90, Fin 90], [Fin 1], [Fin 90], [Fin 1], [Fin (- 2)]])"
  using purcell_line [where dm = 2 and s = 1 and t = 90 and R = "Fin (- 2)"]
  by (simp add: purcell_elem_out_of_domain)

text \<open>
  C4 as amended: \<open>purcell\<close> has no geometry error. Whenever the interfacial properties
  resolve, the diameter is stored and not empty, the three arrays have one length and the
  scope indices lie within it, \<open>purcell\<close> returns an array with one entry per element of
  the scope, whatever the argument of the arcsine.
\<close>

theorem purcell_returns_array:
  assumes "get_key_props ph diameter surface_tension contact_angle h =
           (Inr (entity, sa, ta), h1)"
    and "net_props net diameter = Some d" and "d < length h1" and "h1 ! d \<noteq> []"
    and "sa < length h1" and "ta < length h1"
    and "length (h1 ! sa) = length (h1 ! d)" and "length (h1 ! ta) = length (h1 ! d)"
    and "\<forall>i \<in> set (scope_indices phys ph entity). i < length (h1 ! d)"
  shows "\<exists>a h'. purcell phys ph net R surface_tension contact_angle diameter h = (Inr a, h')
           \<and> length (h' ! a) = length (scope_indices phys ph entity)"
  by (simp add: purcell_run [OF assms] nth_append)

theorem purcell_returns_array_witness:
  "\<exists>a h'. purcell (phys_obj Map.empty) pore_phase throat_net (Fin (- 2))
       ''pore.surface_tension'' ''pore.contact_angle'' ''throat.diameter''
       [[Fin 2], [Fin 1, Fin 1], [Fin 90, Fin 90]] = (Inr a, h')
     \<and> length (h' ! a) = 1"
  using purcell_returns_array
      [OF pore_phase_key_props [of "[Fin 2]" "Fin 1" "Fin 1" "Fin 90" "Fin 90"],
       where net = throat_net and d = 0 and phys = "phys_obj Map.empty" and R = "Fin (- 2)"]
  by (simp add: throat_net_def line_net_def)

subsection \<open>C5: the slice to the scope\<close>

text \<open>
  C5 states that every model returns only the entries of the scope of the requesting
  physics. \<open>washburn\<close>, \<open>purcell\<close> and \<open>cuboid\<close> slice their result (\<open>slice_to_scope\<close>);
  \<open>kelvin\<close> returns the whole array and \<open>from_throat\<close> fills an array of \<open>Np\<close> entries. In
  the example network the physics governs one of the two pores, and both functions
  return two entries.
\<close>

theorem kelvin_and_from_throat_return_all_pores:
  "length (pores vapor_phase (name (phys_obj Map.empty))) = 1
   \<and> Np pore_net = 2
   \<and> fst (kelvin (phys_obj Map.empty) vapor_phase pore_net ''pore.diameter'' ''pore.temperature''
       ''pore.vapor_pressure'' ''pore.molecular_weight'' ''pore.density''
       ''pore.surface_tension''
       [[Fin 2, Fin 2], [Fin 300, Fin 300], [Fin 1000, Fin 1000], [Fin 1, Fin 1],
        [Fin 1, Fin 1], [Fin 1, Fin 1]]) = Inr 7
   \<and> length (snd (kelvin (phys_obj Map.empty) vapor_phase pore_net ''pore.diameter''
       ''pore.temperature'' ''pore.vapor_pressure'' ''pore.molecular_weight'' ''pore.density''
       ''pore.surface_tension''
       [[Fin 2, Fin 2], [Fin 300, Fin 300], [Fin 1000, Fin 1000], [Fin 1, Fin 1],
        [Fin 1, Fin 1], [Fin 1, Fin 1]]) ! 7) = 2
   \<and> from_throat (phys_obj [''throat.capillary_pressure'' \<mapsto> 0]) vapor_phase
       (line_net Map.empty) ''throat.capillary_pressure'' ''min'' [[Fin 5]] =
     (Inr 1, [[Fin 5], [Fin 5, Fin 5]])"
proof -
  have "length (pores vapor_phase (name (phys_obj Map.empty))) = 1"
    by (simp add: vapor_phase_def line_phase_def phys_obj_def)
  moreover have "Np pore_net = 2"
    by (simp add: pore_net_def line_net_def)
  ultimately show ?thesis
    by (simp add: kelvin_line from_throat_line)
qed

subsection \<open>C6: zero replacement\<close>

text \<open>
  C6 states that the modes \<open>max\<close>, \<open>min\<close> and \<open>mean\<close> replace every zero by the maximum,
  minimum or mean of the non-zero entries. In the modes \<open>min\<close> and \<open>mean\<close> the source
  selects \<open>array[~array == 0.0]\<close>, which applies the complement to the float array before
  the comparison: numpy raises \<open>TypeError\<close> and nothing is replaced. On the radii
  \<open>[0, 2, 4]\<close> both modes fail, where the claim gives \<open>[2, 2, 4]\<close> and \<open>[3, 2, 4]\<close>. (In
  the mode \<open>max\<close> the source takes the maximum of all entries; on non-negative radii with
  one non-zero entry this is the maximum of the non-zero entries and the claim holds,
  see \<open>handle_zeros_max_radii\<close>.)
\<close>

theorem handle_zeros_min_mean_raise:
  "handle_zeros 0 ''min'' None [[Fin 0, Fin 2, Fin 4]] = (Inl TypeError, [[Fin 0, Fin 2, Fin 4]])
   \<and> handle_zeros 0 ''mean'' None [[Fin 0, Fin 2, Fin 4]] =
       (Inl TypeError, [[Fin 0, Fin 2, Fin 4]])"
  by (simp add: handle_zeros_min_mean)

subsection \<open>C7: pore values from the incident throats\<close>



subsection \<open>C8: the Washburn formula and its sign\<close>




subsection \<open>C9: the static pressure within a cluster\<close>



subsection \<open>C10: the length of the result and the unoccupied pores\<close>




end
